theory Spec2Isabelle
  imports Complex_Main
begin

section \<open>Agent simulation on a surface (A4/agent_builder.py, A4/agent_simulator.py)\<close>

text \<open>
  A shallow embedding of the agent pipeline. Python floats are modelled as the reals:
  every statement below is about exact arithmetic, rounding is outside the model.
  The geometry calls of rhinoscriptsyntax (\<open>rs\<close>) on a surface are fields of a record; the
  vector calls are written out. The process-wide generator of \<open>random\<close> and the entropy
  behind \<open>uuid.uuid4\<close> are two streams carried in a record that every function returns
  updated. An uncaught Python exception is the left injection of a sum.
\<close>

subsection \<open>Vectors, points and the rs vector calls\<close>

type_synonym vec = "real \<times> real \<times> real"
type_synonym param = "real \<times> real"

datatype error = RhinoError

text \<open>A point variable of the source holds a point or \<open>None\<close> (\<open>rs.EvaluateSurface\<close> gives
  \<open>None\<close> when it fails): \<open>vec option\<close>. The rs calls raise on an argument that is no point.\<close>

definition zero3 :: vec where
  "zero3 = (0, 0, 0)"

definition VectorAdd :: "vec \<Rightarrow> vec \<Rightarrow> vec" where
  "VectorAdd a b = (case a of (ax, ay, az) \<Rightarrow> case b of (bx, by, bz) \<Rightarrow> (ax + bx, ay + by, az + bz))"

definition VectorSubtract :: "vec \<Rightarrow> vec \<Rightarrow> vec" where
  "VectorSubtract a b = (case a of (ax, ay, az) \<Rightarrow> case b of (bx, by, bz) \<Rightarrow> (ax - bx, ay - by, az - bz))"

definition VectorScale :: "vec \<Rightarrow> real \<Rightarrow> vec" where
  "VectorScale a s = (case a of (ax, ay, az) \<Rightarrow> (ax * s, ay * s, az * s))"

definition VectorLength :: "vec \<Rightarrow> real" where
  "VectorLength a = (case a of (ax, ay, az) \<Rightarrow> sqrt (ax * ax + ay * ay + az * az))"

text \<open>\<open>rs.VectorUnitize\<close> returns \<open>None\<close> for a vector it cannot unitize (zero length).\<close>

definition VectorUnitize :: "vec \<Rightarrow> vec option" where
  "VectorUnitize a = (if VectorLength a = 0 then None else Some (VectorScale a (1 / VectorLength a)))"

text \<open>\<open>rs.VectorCreate(to_point, from_point)\<close> is \<open>to_point - from_point\<close>.\<close>

definition VectorCreate :: "vec option \<Rightarrow> vec option \<Rightarrow> error + vec" where
  "VectorCreate to_point from_point =
     (case to_point of None \<Rightarrow> Inl RhinoError
      | Some t \<Rightarrow> (case from_point of None \<Rightarrow> Inl RhinoError
          | Some f \<Rightarrow> Inr (VectorSubtract t f)))"

definition PointAdd :: "vec option \<Rightarrow> vec \<Rightarrow> error + vec" where
  "PointAdd point1 point2 =
     (case point1 of None \<Rightarrow> Inl RhinoError | Some p \<Rightarrow> Inr (VectorAdd p point2))"

definition Distance :: "vec option \<Rightarrow> vec option \<Rightarrow> error + real" where
  "Distance point1 point2 =
     (case point1 of None \<Rightarrow> Inl RhinoError
      | Some p \<Rightarrow> (case point2 of None \<Rightarrow> Inl RhinoError
          | Some q \<Rightarrow> Inr (VectorLength (VectorSubtract q p))))"

subsection \<open>The surface\<close>

text \<open>
  The rs calls on a surface object. \<open>SurfaceClosestPoint\<close> and \<open>EvaluateSurface\<close> give
  \<open>None\<close> when they fail. \<open>SurfaceCurvature\<close> gives the three entries \<open>sample_curvature\<close>
  reads, \<open>(curv[2] or 0.0, curv[3] or 0.0, curv[4])\<close> with a falsy \<open>curv[4]\<close> as \<open>None\<close>; its
  \<open>None\<close> stands for every outcome that \<open>sample_curvature\<close> maps to its fallback (the call
  raised, returned nothing, or returned fewer than five entries).
  The \<open>surface\<close> argument of the source may itself be \<open>None\<close>: \<open>surface option\<close>.
\<close>

record surface =
  IsSurface :: bool
  SurfaceDomain :: "nat \<Rightarrow> real \<times> real"
  EvaluateSurface :: "real \<Rightarrow> real \<Rightarrow> vec option"
  SurfaceClosestPoint :: "vec \<Rightarrow> param option"
  SurfaceCurvature :: "param \<Rightarrow> (real \<times> real \<times> vec option) option"

subsection \<open>The random sources\<close>

text \<open>
  \<open>rng\<close> is the sequence of values that \<open>random.random()\<close> will return, each in \<open>[0, 1)\<close>;
  \<open>uuids\<close> the sequence of identifiers that \<open>uuid.uuid4()\<close> will return. \<open>mt seed\<close> is the
  sequence of the generator after \<open>random.seed(seed)\<close>.
\<close>

record world =
  rng :: "nat \<Rightarrow> real"
  uuids :: "nat \<Rightarrow> nat"

definition seed_everything :: "(int \<Rightarrow> nat \<Rightarrow> real) \<Rightarrow> int option \<Rightarrow> world \<Rightarrow> world" where
  "seed_everything mt seed w = (case seed of None \<Rightarrow> w | Some s \<Rightarrow> w\<lparr>rng := mt s\<rparr>)"

definition random_random :: "world \<Rightarrow> real \<times> world" where
  "random_random w = (rng w 0, w\<lparr>rng := (\<lambda>n. rng w (Suc n))\<rparr>)"

definition random_uniform :: "real \<Rightarrow> real \<Rightarrow> world \<Rightarrow> real \<times> world" where
  "random_uniform a b w = (case random_random w of (r, w') \<Rightarrow> (a + (b - a) * r, w'))"

definition uuid4 :: "world \<Rightarrow> nat \<times> world" where
  "uuid4 w = (uuids w 0, w\<lparr>uuids := (\<lambda>n. uuids w (Suc n))\<rparr>)"

subsection \<open>Helper functions\<close>

definition generate_random_point_on_surface :: "surface option \<Rightarrow> world \<Rightarrow> vec option \<times> world" where
  "generate_random_point_on_surface surface w =
     (case surface of None \<Rightarrow> (None, w)
      | Some s \<Rightarrow>
         (case random_uniform (fst (SurfaceDomain s 0)) (snd (SurfaceDomain s 0)) w of (u, w1) \<Rightarrow>
          case random_uniform (fst (SurfaceDomain s 1)) (snd (SurfaceDomain s 1)) w1 of (v, w2) \<Rightarrow>
            (EvaluateSurface s u v, w2)))"

definition get_uv :: "surface option \<Rightarrow> vec option \<Rightarrow> param option" where
  "get_uv surface point =
     (case surface of None \<Rightarrow> None
      | Some s \<Rightarrow> (case point of None \<Rightarrow> None | Some p \<Rightarrow> SurfaceClosestPoint s p))"

definition sample_curvature :: "surface option \<Rightarrow> param option \<Rightarrow> real \<times> vec" where
  "sample_curvature surface uv =
     (case surface of None \<Rightarrow> (0, zero3)
      | Some s \<Rightarrow> (case uv of None \<Rightarrow> (0, zero3)
          | Some p \<Rightarrow> (case SurfaceCurvature s p of None \<Rightarrow> (0, zero3)
              | Some (k1, k2, d) \<Rightarrow>
                  (0.5 * (k1 + k2), (case d of None \<Rightarrow> zero3 | Some dir1 \<Rightarrow> dir1)))))"

definition sample_slope :: "surface option \<Rightarrow> param option \<Rightarrow> real \<Rightarrow> vec \<times> real" where
  "sample_slope surface uv step =
     (case surface of None \<Rightarrow> (zero3, 0)
      | Some s \<Rightarrow> (case uv of None \<Rightarrow> (zero3, 0)
          | Some (u, v) \<Rightarrow>
             (case EvaluateSurface s u v of None \<Rightarrow> (zero3, 0)
              | Some p0 \<Rightarrow> (case EvaluateSurface s (u + step) v of None \<Rightarrow> (zero3, 0)
                  | Some pu \<Rightarrow> (case EvaluateSurface s u (v + step) of None \<Rightarrow> (zero3, 0)
                      | Some pv \<Rightarrow>
                         (let slope_vec = VectorAdd (VectorSubtract pu p0) (VectorSubtract pv p0)
                          in (slope_vec, VectorLength slope_vec)))))))"

subsection \<open>The agent\<close>

text \<open>
  \<open>neighbors\<close> holds references to other agent objects of the list that \<open>sense\<close> was given.
  A reference is the position of the object in that list.
\<close>

record agent =
  agent_id :: nat
  position :: "vec option"
  velocity :: vec
  age :: int
  is_alive :: bool
  path :: "vec option list"
  uv :: "param option"
  curvature_mean :: real
  curvature_dir :: vec
  slope_vector :: vec
  slope_magnitude :: real
  neighbors :: "(nat \<times> real) list"

definition Agent_new :: "nat \<Rightarrow> vec option \<Rightarrow> vec \<Rightarrow> agent" where
  "Agent_new i pos vel =
     \<lparr>agent_id = i, position = pos, velocity = vel, age = 0, is_alive = True,
      path = [pos], uv = None, curvature_mean = 0, curvature_dir = zero3,
      slope_vector = zero3, slope_magnitude = 0, neighbors = []\<rparr>"

definition Agent_init :: "vec option \<Rightarrow> vec \<Rightarrow> world \<Rightarrow> agent \<times> world" where
  "Agent_init pos vel w = (case uuid4 w of (i, w') \<Rightarrow> (Agent_new i pos vel, w'))"

text \<open>\<open>spawn_agent_near\<close>: the whole body is in a \<open>try\<close>, an exception gives \<open>None\<close>.
  \<open>rs.SurfaceClosestPoint\<close> raises on a surface that is \<open>None\<close>.\<close>

definition spawn_agent_near :: "agent \<Rightarrow> surface option \<Rightarrow> real \<Rightarrow> world \<Rightarrow> agent option \<times> world" where
  "spawn_agent_near parent surface offset w =
     (case random_uniform (- offset) offset w of (jx, w1) \<Rightarrow>
      case random_uniform (- offset) offset w1 of (jy, w2) \<Rightarrow>
        (case PointAdd (position parent) (jx, jy, 0) of Inl e \<Rightarrow> (None, w2)
         | Inr new_pos \<Rightarrow>
            (case surface of None \<Rightarrow> (None, w2)
             | Some s \<Rightarrow>
                (let new_pos' = (case SurfaceClosestPoint s new_pos of
                                   Some (u, v) \<Rightarrow> EvaluateSurface s u v
                                 | None \<Rightarrow> Some new_pos)
                 in case random_uniform (- 0.05) 0.05 w2 of (vx, w3) \<Rightarrow>
                    case random_uniform (- 0.05) 0.05 w3 of (vy, w4) \<Rightarrow>
                    case Agent_init new_pos' (vx, vy, 0) w4 of (child, w5) \<Rightarrow>
                      (Some child, w5)))))"

subsection \<open>Sensing\<close>

fun scan_neighbors :: "agent \<Rightarrow> real \<Rightarrow> (nat \<times> agent) list \<Rightarrow> (nat \<times> real) list" where
  "scan_neighbors self vision_radius [] = []"
| "scan_neighbors self vision_radius ((j, other) # rest) =
     (if agent_id other = agent_id self then scan_neighbors self vision_radius rest
      else (case Distance (position self) (position other) of
              Inl e \<Rightarrow> scan_neighbors self vision_radius rest
            | Inr d \<Rightarrow>
                (if d \<le> vision_radius then (j, d) # scan_neighbors self vision_radius rest
                 else scan_neighbors self vision_radius rest)))"

definition sense_geometry :: "agent \<Rightarrow> surface option \<Rightarrow> agent" where
  "sense_geometry self surface =
     (let self1 = self\<lparr>uv := get_uv surface (position self)\<rparr>
      in (case uv self1 of None \<Rightarrow> self1
          | Some p \<Rightarrow>
             (case sample_curvature surface (uv self1) of (m, d) \<Rightarrow>
              case sample_slope surface (uv self1) 0.001 of (sv, sm) \<Rightarrow>
                self1\<lparr>curvature_mean := m, curvature_dir := d,
                      slope_vector := sv, slope_magnitude := sm\<rparr>)))"

definition sense :: "agent \<Rightarrow> agent list \<Rightarrow> surface option \<Rightarrow> real option \<Rightarrow> agent" where
  "sense self agents surface vision_radius =
     (let self2 = (sense_geometry self surface)\<lparr>neighbors := []\<rparr>
      in (case vision_radius of None \<Rightarrow> self2
          | Some r \<Rightarrow> self2\<lparr>neighbors := scan_neighbors self2 r (enumerate 0 agents)\<rparr>))"

subsection \<open>Deciding\<close>

definition slope_resistance :: "agent \<Rightarrow> real \<Rightarrow> vec" where
  "slope_resistance self max_slope =
     (let slope_mag = slope_magnitude self;
          resistance = (if max_slope \<noteq> 0 then max 0.2 (1 - slope_mag / max_slope) else 1)
      in VectorScale (velocity self) resistance)"

definition curvature_alignment :: "agent \<Rightarrow> real \<Rightarrow> vec \<Rightarrow> error + vec" where
  "curvature_alignment self alignment_weight v =
     (if VectorLength (curvature_dir self) > 1 / 1000000 then
        (let align_w = alignment_weight * (if \<bar>curvature_mean self\<bar> < 0.1 then 4 else 1)
         in (case VectorUnitize (curvature_dir self) of None \<Rightarrow> Inl RhinoError
             | Some c_dir \<Rightarrow> Inr (VectorAdd v (VectorScale c_dir align_w))))
      else Inr v)"

fun accumulate_away :: "agent \<Rightarrow> agent list \<Rightarrow> (nat \<times> real) list \<Rightarrow> vec \<Rightarrow> error + vec" where
  "accumulate_away self agents [] away = Inr away"
| "accumulate_away self agents ((j, distance) # rest) away =
     (case VectorCreate (position self) (position (agents ! j)) of Inl e \<Rightarrow> Inl e
      | Inr vec \<Rightarrow>
         (if VectorLength vec > 1 / 1000000000 then
            (case VectorUnitize vec of None \<Rightarrow> Inl RhinoError
             | Some u \<Rightarrow>
                accumulate_away self agents rest
                  (VectorAdd away (VectorScale u (1 / max distance (1 / 1000000)))))
          else accumulate_away self agents rest away))"

definition separation :: "agent \<Rightarrow> agent list \<Rightarrow> real \<Rightarrow> vec \<Rightarrow> error + vec" where
  "separation self agents separation_weight v =
     (if neighbors self \<noteq> [] then
        (case accumulate_away self agents (neighbors self) zero3 of Inl e \<Rightarrow> Inl e
         | Inr away \<Rightarrow>
            (if VectorLength away > 1 / 1000000000 then
               (case VectorUnitize away of None \<Rightarrow> Inl RhinoError
                | Some u \<Rightarrow> Inr (VectorAdd v (VectorScale u separation_weight)))
             else Inr v))
      else Inr v)"

definition clamp_speed :: "real \<Rightarrow> vec \<Rightarrow> error + vec" where
  "clamp_speed max_speed v =
     (let speed = VectorLength v
      in if speed > max_speed then
           (case VectorUnitize v of None \<Rightarrow> Inl RhinoError
            | Some u \<Rightarrow> Inr (VectorScale u max_speed))
         else Inr v)"

definition jitter_if_stuck :: "real \<Rightarrow> vec \<Rightarrow> world \<Rightarrow> vec \<times> world" where
  "jitter_if_stuck jitter v w =
     (if VectorLength v < 1 / 10000 then
        (case random_uniform (- jitter) jitter w of (jx, w1) \<Rightarrow>
         case random_uniform (- jitter) jitter w1 of (jy, w2) \<Rightarrow>
           (VectorAdd v (jx, jy, 0), w2))
      else (v, w))"

record params =
  vision_radius :: "real option"
  max_speed :: real
  max_slope :: real
  alignment_weight :: real
  separation_weight :: real
  jitter :: real
  max_age :: int
  slope_kill :: real
  curvature_spawn :: real
  spawn_chance :: real
  max_neighbors :: int

definition decide :: "agent \<Rightarrow> agent list \<Rightarrow> params \<Rightarrow> world \<Rightarrow> error + (agent \<times> world)" where
  "decide self agents P w =
     (if \<not> is_alive self then Inr (self, w)
      else
        (case curvature_alignment self (alignment_weight P) (slope_resistance self (max_slope P)) of
           Inl e \<Rightarrow> Inl e
         | Inr v2 \<Rightarrow>
        (case separation self agents (separation_weight P) v2 of Inl e \<Rightarrow> Inl e
         | Inr v3 \<Rightarrow>
        (case clamp_speed (max_speed P) v3 of Inl e \<Rightarrow> Inl e
         | Inr v4 \<Rightarrow>
        (case jitter_if_stuck (jitter P) v4 w of (v5, w') \<Rightarrow>
           Inr (self\<lparr>velocity := v5\<rparr>, w'))))))"

subsection \<open>Moving and the lifecycle\<close>

definition move :: "agent \<Rightarrow> surface option \<Rightarrow> error + agent" where
  "move self surface =
     (if \<not> is_alive self then Inr self
      else (case PointAdd (position self) (velocity self) of Inl e \<Rightarrow> Inl e
            | Inr new_pos \<Rightarrow>
               (let pos' = (case surface of None \<Rightarrow> Some new_pos
                            | Some s \<Rightarrow>
                               (case SurfaceClosestPoint s new_pos of None \<Rightarrow> Some new_pos
                                | Some (u, v) \<Rightarrow> EvaluateSurface s u v))
                in Inr (self\<lparr>position := pos', path := path self @ [pos']\<rparr>))))"

text \<open>The spawn rules of \<open>update\<close>: the probability compared with the sample.\<close>

definition spawn_prob :: "params \<Rightarrow> agent \<Rightarrow> real" where
  "spawn_prob P self =
     (let prob0 = spawn_chance P;
          prob1 = (if \<bar>curvature_mean self\<bar> > curvature_spawn P then prob0 * 3 else prob0)
      in if int (length (neighbors self)) > max_neighbors P then 0 else prob1)"

text \<open>
  \<open>update i agents\<close> is \<open>agents[i].update(agents, ...)\<close>: the object updated is a member of
  the list it senses, as at both call sites. The result is the object after the call, the
  return value (a spawned agent or \<open>None\<close>) and the random sources.
\<close>

definition update :: "nat \<Rightarrow> agent list \<Rightarrow> surface option \<Rightarrow> params \<Rightarrow> world
    \<Rightarrow> error + (agent \<times> agent option \<times> world)" where
  "update i agents surface P w =
     (let self = agents ! i in
      if \<not> is_alive self then Inr (self, None, w)
      else
        (let self1 = sense self agents surface (vision_radius P) in
         case decide self1 (agents[i := self1]) P w of Inl e \<Rightarrow> Inl e
         | Inr (self2, w2) \<Rightarrow>
        (case move self2 surface of Inl e \<Rightarrow> Inl e
         | Inr self3 \<Rightarrow>
        (let self4 = self3\<lparr>age := age self3 + 1\<rparr> in
         if age self4 > max_age P \<or> slope_magnitude self4 > slope_kill P
         then Inr (self4\<lparr>is_alive := False\<rparr>, None, w2)
         else
           (case random_random w2 of (r, w3) \<Rightarrow>
              if r < spawn_prob P self4
              then (case spawn_agent_near self4 surface 0.2 w3 of (spawned, w4) \<Rightarrow>
                      Inr (self4, spawned, w4))
              else Inr (self4, None, w3))))))"

subsection \<open>The population step\<close>

text \<open>
  The loop \<open>for agent in agents\<close> over the positions of the list. \<open>store\<close> is the list of
  objects, mutated in place; \<open>active\<close> collects references to the objects found alive after
  their update, \<open>new_agents\<close> the spawned agents.
\<close>

fun step_loop :: "surface option \<Rightarrow> params \<Rightarrow> nat list
    \<Rightarrow> agent list \<times> nat list \<times> agent list \<times> world
    \<Rightarrow> error + (agent list \<times> nat list \<times> agent list \<times> world)" where
  "step_loop surface P [] st = Inr st"
| "step_loop surface P (i # rest) (store, active, new_agents, w) =
     (case update i store surface P w of Inl e \<Rightarrow> Inl e
      | Inr (self', spawned, w') \<Rightarrow>
          step_loop surface P rest
            (store[i := self'],
             (if is_alive self' then active @ [i] else active),
             (case spawned of None \<Rightarrow> new_agents | Some c \<Rightarrow> new_agents @ [c]),
             w'))"

text \<open>The parameters \<open>update\<close> takes by default.\<close>

definition default_params :: params where
  "default_params =
     \<lparr>vision_radius = Some 1, max_speed = 0.5, max_slope = 0.8, alignment_weight = 0.05,
      separation_weight = 0.12, jitter = 0.01, max_age = 200, slope_kill = 1.2,
      curvature_spawn = 0.15, spawn_chance = 0.02, max_neighbors = 6\<rparr>"

fun build_loop :: "nat \<Rightarrow> surface option \<Rightarrow> agent list \<Rightarrow> world \<Rightarrow> agent list \<times> world" where
  "build_loop 0 surface agents w = (agents, w)"
| "build_loop (Suc n) surface agents w =
     (case generate_random_point_on_surface surface w of (pos, w1) \<Rightarrow>
        (case pos of None \<Rightarrow> build_loop n surface agents w1
         | Some p \<Rightarrow>
            (case random_uniform (- 0.05) 0.05 w1 of (vx, w2) \<Rightarrow>
             case random_uniform (- 0.05) 0.05 w2 of (vy, w3) \<Rightarrow>
             case Agent_init pos (vx, vy, 0) w3 of (a, w4) \<Rightarrow>
               build_loop n surface (agents @ [a]) w4)))"

definition build_agents :: "int \<Rightarrow> surface option \<Rightarrow> world \<Rightarrow> agent list \<times> world" where
  "build_agents num_agents start_surface w =
     (case start_surface of None \<Rightarrow> ([], w)
      | Some s \<Rightarrow> if \<not> IsSurface s then ([], w)
                  else build_loop (nat num_agents) start_surface [] w)"

text \<open>
  \<open>MyComponent.RunScript\<close>. The component keeps \<open>self.agents\<close> between calls: \<open>None\<close> when the
  attribute is missing or \<open>None\<close>. \<open>RunScript\<close> passes the six behaviour parameters it takes
  and leaves the five lifecycle parameters of \<open>update\<close> at their defaults.
\<close>

definition run_params :: "real option \<Rightarrow> real \<Rightarrow> real \<Rightarrow> real \<Rightarrow> real \<Rightarrow> real \<Rightarrow> params" where
  "run_params vr ms msl aw sw jt =
     default_params\<lparr>vision_radius := vr, max_speed := ms, max_slope := msl,
       alignment_weight := aw, separation_weight := sw, jitter := jt\<rparr>"

definition RunScript :: "(int \<Rightarrow> nat \<Rightarrow> real) \<Rightarrow> int option \<Rightarrow> int \<Rightarrow> bool \<Rightarrow> surface option \<Rightarrow> params
    \<Rightarrow> agent list option \<times> world \<Rightarrow> error + (agent list option \<times> world)" where
  "RunScript mt seed N reset start_surface P cw =
     (case cw of (component, w) \<Rightarrow>
      (let w1 = seed_everything mt seed w in
       case (if reset \<or> component = None then build_agents N start_surface w1
             else (the component, w1)) of (agents, w2) \<Rightarrow>
       (case step_loop start_surface P [0..<length agents] (agents, [], [], w2) of
          Inl e \<Rightarrow> Inl e
        | Inr (store, active, new_agents, w3) \<Rightarrow>
            Inr (Some (map (\<lambda>i. store ! i) active @ new_agents), w3))))"

text \<open>The step loop of agent_simulator.py: every update with the default parameters,
  then \<open>agents = agents + new_agents\<close>.\<close>

definition simulator_step :: "agent list \<Rightarrow> surface option \<Rightarrow> world \<Rightarrow> error + (agent list \<times> world)" where
  "simulator_step agents start_surface w =
     (case step_loop start_surface default_params [0..<length agents] (agents, [], [], w) of
        Inl e \<Rightarrow> Inl e
      | Inr (store, active, new_agents, w') \<Rightarrow> Inr (store @ new_agents, w'))"

subsection \<open>Concrete inputs\<close>

text \<open>
  A plane patch parametrised with different scales in the two directions; the closest-point
  query fails for points with \<open>x > 10\<close>. The curvature query is undefined on it.
\<close>

definition example_surface :: surface where
  "example_surface =
     \<lparr>IsSurface = True, SurfaceDomain = (\<lambda>d. (0, 1)),
      EvaluateSurface = (\<lambda>u v. Some (3 * u, 4 * v, 0)),
      SurfaceClosestPoint = (\<lambda>p. case p of (x, y, z) \<Rightarrow> if x \<le> 10 then Some (x / 3, y / 4) else None),
      SurfaceCurvature = (\<lambda>p. None)\<rparr>"

definition example_world :: world where
  "example_world = \<lparr>rng = (\<lambda>n. 1 / 2), uuids = (\<lambda>n. 100 + n)\<rparr>"

text \<open>An agent as \<open>Agent(...)\<close> builds it, near the edge of the patch, and the same agent
  after one update with the default parameters: it has left the patch.\<close>

definition example_agent :: agent where
  "example_agent = Agent_new 1 (Some (99 / 10, 0, 0)) (3 / 10, 0, 0)"

definition example_agent_moved :: agent where
  "example_agent_moved =
     \<lparr>agent_id = 1, position = Some (16317 / 1600, 0, 0), velocity = (477 / 1600, 0, 0),
      age = 1, is_alive = True, path = [Some (99 / 10, 0, 0), Some (16317 / 1600, 0, 0)],
      uv = Some (33 / 10, 0), curvature_mean = 0, curvature_dir = (0, 0, 0),
      slope_vector = (3 / 1000, 1 / 250, 0), slope_magnitude = 1 / 200, neighbors = []\<rparr>"

text \<open>The invariant of the \<open>path\<close> field.\<close>

definition path_invariant :: "agent \<Rightarrow> bool" where
  "path_invariant a \<longleftrightarrow> path a \<noteq> [] \<and> last (path a) = position a"

text \<open>A parent agent, parameters under which every survivor tries to spawn, and the parent
  after one update without a surface and on the example surface.\<close>

definition example_parent :: agent where
  "example_parent = Agent_new 1 (Some (0, 0, 0)) (3 / 10, 0, 0)"

definition eager_params :: params where
  "eager_params = default_params\<lparr>spawn_chance := 1\<rparr>"

definition example_parent_moved :: agent where
  "example_parent_moved =
     \<lparr>agent_id = 1, position = Some (3 / 10, 0, 0), velocity = (3 / 10, 0, 0), age = 1,
      is_alive = True, path = [Some (0, 0, 0), Some (3 / 10, 0, 0)], uv = None,
      curvature_mean = 0, curvature_dir = (0, 0, 0), slope_vector = (0, 0, 0),
      slope_magnitude = 0, neighbors = []\<rparr>"

definition example_parent_projected :: agent where
  "example_parent_projected =
     \<lparr>agent_id = 1, position = Some (477 / 1600, 0, 0), velocity = (477 / 1600, 0, 0), age = 1,
      is_alive = True, path = [Some (0, 0, 0), Some (477 / 1600, 0, 0)], uv = Some (0, 0),
      curvature_mean = 0, curvature_dir = (0, 0, 0), slope_vector = (3 / 1000, 1 / 250, 0),
      slope_magnitude = 1 / 200, neighbors = []\<rparr>"

text \<open>Normalising a vector, as a total function; where \<open>VectorUnitize\<close> succeeds it gives
  this vector.\<close>

definition normalize :: "vec \<Rightarrow> vec" where
  "normalize v = VectorScale v (1 / VectorLength v)"

text \<open>
  The neighbor-interaction sum as the specification words it, over the pairs of
  another agent's position and its distance:
  the sum of \<open>normalize(other.position - position) * (1 / max(distance, 1e-6))\<close>.
\<close>

definition spec_away :: "vec \<Rightarrow> (vec \<times> real) list \<Rightarrow> vec" where
  "spec_away p others =
     foldl VectorAdd zero3
       (map (\<lambda>(q, d). VectorScale (normalize (VectorSubtract q p)) (1 / max d (1 / 1000000))) others)"

text \<open>
  The sum the loop of the separation stage computes, in closed form: over the neighbors
  further than \<open>1e-9\<close> from the agent, of
  \<open>normalize(position - other.position) * (1 / max(distance, 1e-6))\<close>.
\<close>

definition away_sum :: "vec \<Rightarrow> agent list \<Rightarrow> (nat \<times> real) list \<Rightarrow> vec \<Rightarrow> vec" where
  "away_sum p agents ns start =
     foldl VectorAdd start
       (map (\<lambda>(j, d). VectorScale (normalize (VectorSubtract p (the (position (agents ! j)))))
                         (1 / max d (1 / 1000000)))
          (filter (\<lambda>(j, d). VectorLength (VectorSubtract p (the (position (agents ! j)))) > 1 / 1000000000)
             ns))"

text \<open>Parameters with a small speed limit, a world whose first sample is \<open>0.9\<close>, the parent
  after sensing alone on the example surface, a second agent, and the parent after sensing
  with the second agent in reach.\<close>

definition slow_params :: params where
  "slow_params = default_params\<lparr>max_speed := 1 / 100000\<rparr>"

definition example_world_high :: world where
  "example_world_high = \<lparr>rng = (\<lambda>n. if n = 0 then 9 / 10 else 1 / 2), uuids = (\<lambda>n. 100 + n)\<rparr>"

definition example_parent_sensed :: agent where
  "example_parent_sensed =
     \<lparr>agent_id = 1, position = Some (0, 0, 0), velocity = (3 / 10, 0, 0), age = 0,
      is_alive = True, path = [Some (0, 0, 0)], uv = Some (0, 0),
      curvature_mean = 0, curvature_dir = (0, 0, 0), slope_vector = (3 / 1000, 1 / 250, 0),
      slope_magnitude = 1 / 200, neighbors = []\<rparr>"

definition example_neighbor :: agent where
  "example_neighbor = Agent_new 2 (Some (3 / 4, 0, 0)) (0, 0, 0)"

definition example_parent_near :: agent where
  "example_parent_near = example_parent_sensed\<lparr>neighbors := [(1, 3 / 4)]\<rparr>"

text \<open>A call of \<open>RunScript\<close> with vision radius \<open>0.5\<close>; a moving agent, with the second agent
  out of its reach at the start of the step; an agent of age 200; and the two agents of the
  first pair after one pass of the population loop.\<close>

definition near_params :: params where
  "near_params = run_params (Some (1 / 2)) 0.5 0.8 0.05 0.12 0.01"

definition example_mover :: agent where
  "example_mover = Agent_new 1 (Some (0, 0, 0)) (8 / 25, 0, 0)"

definition example_elder :: agent where
  "example_elder = (Agent_new 1 (Some (0, 0, 0)) (0, 0, 0))\<lparr>age := 200\<rparr>"

definition example_mover_moved :: agent where
  "example_mover_moved =
     \<lparr>agent_id = 1, position = Some (159 / 500, 0, 0),
      velocity = (159 / 500, 0, 0), age = 1, is_alive = True,
      path = [Some (0, 0, 0), Some (159 / 500, 0, 0)],
      uv = Some (0, 0), curvature_mean = 0, curvature_dir = (0, 0, 0),
      slope_vector = (3 / 1000, 1 / 250, 0),
      slope_magnitude = 1 / 200, neighbors = []\<rparr>"

definition example_neighbor_moved :: agent where
  "example_neighbor_moved =
     \<lparr>agent_id = 2, position = Some (87 / 100, 0, 0),
      velocity = (3 / 25, 0, 0), age = 1, is_alive = True,
      path = [Some (3 / 4, 0, 0), Some (87 / 100, 0, 0)],
      uv = Some (1 / 4, 0), curvature_mean = 0, curvature_dir = (0, 0, 0),
      slope_vector = (3 / 1000, 1 / 250, 0),
      slope_magnitude = 1 / 200, neighbors = [(0, 54 / 125)]\<rparr>"

text \<open>Two agent records that differ at most in the identifier.\<close>

definition same_but_id :: "agent \<Rightarrow> agent \<Rightarrow> bool" where
  "same_but_id a b \<longleftrightarrow> b = a\<lparr>agent_id := agent_id b\<rparr>"

text \<open>The contract of \<open>uuid4\<close> for a list of identifiers already handed out: they are
  distinct, the identifiers still to come are distinct, and none of them is in the list.\<close>

definition fresh_ids :: "nat list \<Rightarrow> world \<Rightarrow> bool" where
  "fresh_ids ids w \<longleftrightarrow> distinct ids \<and> inj (uuids w) \<and> set ids \<inter> range (uuids w) = {}"

text \<open>The population and random sources with which \<open>RunScript\<close> enters its loop: after
  seeding, and after building the population when \<open>reset\<close> is set or the component has
  none.\<close>

definition run_start :: "(int \<Rightarrow> nat \<Rightarrow> real) \<Rightarrow> int option \<Rightarrow> int \<Rightarrow> bool \<Rightarrow> surface option
    \<Rightarrow> agent list option \<times> world \<Rightarrow> agent list \<times> world" where
  "run_start mt seed N reset s cw =
     (if reset \<or> fst cw = None then build_agents N s (seed_everything mt seed (snd cw))
      else (the (fst cw), seed_everything mt seed (snd cw)))"

text \<open>
  A run: the host calls \<open>RunScript\<close> once per step with the same inputs, the list gives the
  \<open>reset\<close> flag of each call; an exception ends the run. \<open>population\<close> reads the agents
  the component holds.
\<close>

fun run_steps :: "(int \<Rightarrow> nat \<Rightarrow> real) \<Rightarrow> int option \<Rightarrow> int \<Rightarrow> surface option \<Rightarrow> params \<Rightarrow> bool list
    \<Rightarrow> agent list option \<times> world \<Rightarrow> error + (agent list option \<times> world)" where
  "run_steps mt seed N s P [] cw = Inr cw"
| "run_steps mt seed N s P (reset # resets) cw =
     (case RunScript mt seed N reset s P cw of Inl e \<Rightarrow> Inl e
      | Inr cw' \<Rightarrow> run_steps mt seed N s P resets cw')"

definition population :: "agent list option \<Rightarrow> agent list" where
  "population c = (case c of None \<Rightarrow> [] | Some xs \<Rightarrow> xs)"

text \<open>A generator whose fifth sample after seeding is \<open>0.9\<close>, and the single agent of a run of
  two steps with it.\<close>

definition example_mt :: "int \<Rightarrow> nat \<Rightarrow> real" where
  "example_mt seed n = (if n = 4 then 9 / 10 else 1 / 2)"

definition example_final :: agent where
  "example_final =
     \<lparr>agent_id = 0, position = Some (30319 / 20000, 2, 0), velocity = (159 / 20000, 0, 0),
      age = 2, is_alive = True,
      path = [Some (3 / 2, 2, 0), Some (377 / 250, 2, 0), Some (30319 / 20000, 2, 0)],
      uv = Some (377 / 750, 1 / 2), curvature_mean = 0, curvature_dir = (0, 0, 0),
      slope_vector = (3 / 1000, 1 / 250, 0), slope_magnitude = 1 / 200, neighbors = []\<rparr>"

lemmas vector_defs = VectorAdd_def VectorSubtract_def VectorScale_def VectorLength_def
  VectorUnitize_def VectorCreate_def PointAdd_def Distance_def zero3_def

lemmas random_defs = random_random_def random_uniform_def uuid4_def

lemmas sense_defs = get_uv_def sample_curvature_def sample_slope_def sense_geometry_def sense_def

lemmas decide_defs = slope_resistance_def curvature_alignment_def separation_def clamp_speed_def
  jitter_if_stuck_def decide_def

lemmas example_defs = example_surface_def example_world_def Agent_new_def Agent_init_def
  default_params_def

lemma sqrt_example_slope: "sqrt (1 / 40000) = 1 / 200"
  by (rule real_sqrt_unique) (simp_all add: power2_eq_square)

section \<open>Vector facts\<close>

lemma VectorLength_nonneg: "0 \<le> VectorLength v"
  by (cases v) (simp add: VectorLength_def)

lemma VectorLength_eq_0_iff: "VectorLength v = 0 \<longleftrightarrow> v = (0, 0, 0)"
proof (cases v)
  case (fields x y z)
  have "x * x + y * y + z * z = 0 \<longleftrightarrow> x = 0 \<and> y = 0 \<and> z = 0"
    using sum_squares_eq_zero_iff [of x y] by (smt (verit) mult_eq_0_iff zero_le_square)
  then show ?thesis using fields
    by (simp add: VectorLength_def)
qed

lemma VectorSubtract_eq_0_iff: "VectorSubtract a b = (0, 0, 0) \<longleftrightarrow> a = b"
  by (cases a, cases b) (auto simp: VectorSubtract_def)

lemma Distance_le_0_D: "Distance p q = Inr d \<Longrightarrow> d \<le> 0 \<Longrightarrow> d = 0 \<and> p \<noteq> None \<and> q = p"
proof -
  assume a: "Distance p q = Inr d" "d \<le> 0"
  then obtain x y where xy: "p = Some x" "q = Some y" "d = VectorLength (VectorSubtract y x)"
    by (auto simp: Distance_def split: option.splits)
  with a VectorLength_nonneg [of "VectorSubtract y x"] have "d = 0" by simp
  with xy have "y = x" by (simp add: VectorLength_eq_0_iff VectorSubtract_eq_0_iff)
  with xy \<open>d = 0\<close> show ?thesis by simp
qed

lemma Distance_same: "p \<noteq> None \<Longrightarrow> Distance p p = Inr 0"
  by (cases p) (auto simp: Distance_def VectorLength_eq_0_iff VectorSubtract_eq_0_iff)

section \<open>Sensing\<close>

lemma sense_geometry_frame:
  "agent_id (sense_geometry self surface) = agent_id self"
  "position (sense_geometry self surface) = position self"
  "velocity (sense_geometry self surface) = velocity self"
  "age (sense_geometry self surface) = age self"
  "is_alive (sense_geometry self surface) = is_alive self"
  "path (sense_geometry self surface) = path self"
  "neighbors (sense_geometry self surface) = neighbors self"
  by (simp_all add: sense_geometry_def Let_def split: option.splits prod.splits)

lemma scan_neighbors_radius_0:
  "scan_neighbors self 0 jas =
     map (\<lambda>(j, a). (j, 0))
       (filter (\<lambda>(j, a). agent_id a \<noteq> agent_id self \<and> position self \<noteq> None
                  \<and> position a = position self) jas)"
proof (induction jas)
  case Nil
  then show ?case by simp
next
  case (Cons ja jas)
  obtain j a where ja: "ja = (j, a)" by (cases ja)
  show ?case
  proof (cases "Distance (position self) (position a)")
    case (Inl e)
    then have "\<not> (position self \<noteq> None \<and> position a = position self)"
      using Distance_same [of "position self"] by auto
    with Inl Cons ja show ?thesis by auto
  next
    case (Inr d)
    show ?thesis
    proof (cases "d \<le> 0")
      case True
      from Distance_le_0_D [OF Inr True] Inr Cons ja show ?thesis by auto
    next
      case False
      then have "\<not> (position self \<noteq> None \<and> position a = position self)"
        using Distance_same [of "position self"] Inr by auto
      with Inr False Cons ja show ?thesis by auto
    qed
  qed
qed

text \<open>
  Claim C9, as the code has it. With no vision radius (\<open>None\<close>) the neighbor list is empty
  after sensing. With vision radius 0 the test is \<open>d <= vision_radius\<close>, so the list holds
  exactly the other agents (by id) that stand on the agent's own position, each at
  distance 0; it is empty when no other agent shares the position.
\<close>

theorem C9_vision_radius_zero_neighbors:
  "neighbors (sense self agents surface None) = [] \<and>
   neighbors (sense self agents surface (Some 0)) =
     map (\<lambda>(j, a). (j, 0))
       (filter (\<lambda>(j, a). agent_id a \<noteq> agent_id self \<and> position self \<noteq> None
                  \<and> position a = position self) (enumerate 0 agents))"
  by (simp add: sense_def Let_def scan_neighbors_radius_0 sense_geometry_frame)

theorem C9_vision_radius_zero_neighbors_witness:
  "neighbors (sense (Agent_new 1 (Some (3, 4, 0)) (0, 0, 0))
      [Agent_new 1 (Some (3, 4, 0)) (0, 0, 0), Agent_new 2 (Some (3, 4, 0)) (0, 0, 0),
       Agent_new 3 (Some (6, 4, 0)) (0, 0, 0)]
      (Some example_surface) None) = [] \<and>
   neighbors (sense (Agent_new 1 (Some (3, 4, 0)) (0, 0, 0))
      [Agent_new 1 (Some (3, 4, 0)) (0, 0, 0), Agent_new 2 (Some (3, 4, 0)) (0, 0, 0),
       Agent_new 3 (Some (6, 4, 0)) (0, 0, 0)]
      (Some example_surface) (Some 0)) = [(1, 0)]"
  using C9_vision_radius_zero_neighbors [of "Agent_new 1 (Some (3, 4, 0)) (0, 0, 0)"
      "[Agent_new 1 (Some (3, 4, 0)) (0, 0, 0), Agent_new 2 (Some (3, 4, 0)) (0, 0, 0),
       Agent_new 3 (Some (6, 4, 0)) (0, 0, 0)]" "Some example_surface"]
  by (simp add: Agent_new_def enumerate_eq_zip)

text \<open>
  Claim C9 as stated fails: two agents on the same point, vision radius 0, and the first
  agent's neighbor list is not empty after sensing.
\<close>

theorem C9_counterexample:
  "neighbors (sense (Agent_new 1 (Some (3, 4, 0)) (0, 0, 0))
      [Agent_new 1 (Some (3, 4, 0)) (0, 0, 0), Agent_new 2 (Some (3, 4, 0)) (0, 0, 0)]
      (Some example_surface) (Some 0)) \<noteq> []"
  by (simp add: sense_defs vector_defs example_defs enumerate_eq_zip Let_def)

lemma sense_frame:
  "agent_id (sense self agents surface vr) = agent_id self"
  "position (sense self agents surface vr) = position self"
  "velocity (sense self agents surface vr) = velocity self"
  "age (sense self agents surface vr) = age self"
  "is_alive (sense self agents surface vr) = is_alive self"
  "path (sense self agents surface vr) = path self"
  by (simp_all add: sense_def Let_def sense_geometry_frame split: option.splits)

lemma sense_geometry_fields:
  "uv (sense self agents surface vr) = uv (sense_geometry self surface)"
  "curvature_mean (sense self agents surface vr) = curvature_mean (sense_geometry self surface)"
  "curvature_dir (sense self agents surface vr) = curvature_dir (sense_geometry self surface)"
  "slope_vector (sense self agents surface vr) = slope_vector (sense_geometry self surface)"
  "slope_magnitude (sense self agents surface vr) = slope_magnitude (sense_geometry self surface)"
  by (simp_all add: sense_def Let_def split: option.splits)

lemma sense_geometry_failed:
  assumes "get_uv surface (position self) = None"
  shows "sense_geometry self surface = self\<lparr>uv := None\<rparr>"
  using assms by (simp add: sense_geometry_def Let_def)

lemma decide_frame:
  assumes "decide self agents P w = Inr (a, w')"
  shows "a = self\<lparr>velocity := velocity a\<rparr>"
  using assms
  by (auto simp: decide_def split: if_splits sum.splits prod.splits)

lemma move_alive:
  assumes "move self surface = Inr a" "is_alive self"
  shows "a = self\<lparr>position := position a, path := path self @ [position a]\<rparr>"
  using assms
  by (auto simp: move_def Let_def split: sum.splits)

lemma move_dead: "\<not> is_alive self \<Longrightarrow> move self surface = Inr self"
  by (simp add: move_def)

lemma update_dead: "\<not> is_alive (agents ! i) \<Longrightarrow> update i agents surface P w = Inr (agents ! i, None, w)"
  by (simp add: update_def)

lemma update_alive_elim:
  assumes "is_alive (agents ! i)" "update i agents surface P w = Inr (a', sp, w')"
  obtains self2 w2 self3 where
    "decide (sense (agents ! i) agents surface (vision_radius P))
       (agents[i := sense (agents ! i) agents surface (vision_radius P)]) P w = Inr (self2, w2)"
    "move self2 surface = Inr self3"
    "(max_age P < age self3 + 1 \<or> slope_kill P < slope_magnitude self3) \<and>
       a' = self3\<lparr>age := age self3 + 1, is_alive := False\<rparr> \<and> sp = None \<and> w' = w2
     \<or> \<not> (max_age P < age self3 + 1 \<or> slope_kill P < slope_magnitude self3) \<and>
       a' = self3\<lparr>age := age self3 + 1\<rparr> \<and>
       (if rng w2 0 < spawn_prob P (self3\<lparr>age := age self3 + 1\<rparr>)
        then (sp, w') = spawn_agent_near (self3\<lparr>age := age self3 + 1\<rparr>) surface 0.2 (snd (random_random w2))
        else sp = None \<and> w' = snd (random_random w2))"
  using assms
  by (auto simp: update_def Let_def random_random_def split: sum.splits prod.splits if_splits)

lemma scan_neighbors_sound:
  "(j, d) \<in> set (scan_neighbors self r jas) \<Longrightarrow>
     \<exists>a. (j, a) \<in> set jas \<and> agent_id a \<noteq> agent_id self \<and>
         Distance (position self) (position a) = Inr d \<and> d \<le> r"
proof (induction jas)
  case Nil
  then show ?case by simp
next
  case (Cons ja jas)
  obtain k b where ja: "ja = (k, b)" by (cases ja)
  from Cons.prems ja consider
      "(j, d) \<in> set (scan_neighbors self r jas)"
    | "j = k" "agent_id b \<noteq> agent_id self" "Distance (position self) (position b) = Inr d" "d \<le> r"
    by (auto split: if_splits sum.splits)
  then show ?case
  proof cases
    case 1
    with Cons.IH show ?thesis by auto
  next
    case 2
    with ja show ?thesis by auto
  qed
qed

lemma sense_neighbors_valid:
  assumes "(j, d) \<in> set (neighbors (sense self agents surface vr))"
  shows "j < length agents \<and> agent_id (agents ! j) \<noteq> agent_id self \<and>
         Distance (position self) (position (agents ! j)) = Inr d"
proof -
  from assms obtain r where r: "vr = Some r"
    and mem: "(j, d) \<in> set (scan_neighbors ((sense_geometry self surface)\<lparr>neighbors := []\<rparr>) r (enumerate 0 agents))"
    by (auto simp: sense_def Let_def split: option.splits)
  from scan_neighbors_sound [OF mem] obtain a where
    a: "(j, a) \<in> set (enumerate 0 agents)" "agent_id a \<noteq> agent_id self"
       "Distance (position self) (position a) = Inr d"
    by (auto simp: sense_geometry_frame)
  from a(1) have "j < length agents" "a = agents ! j"
    by (auto simp: in_set_enumerate_eq)
  with a show ?thesis by simp
qed

lemma VectorUnitize_Some: "VectorLength v \<noteq> 0 \<Longrightarrow> \<exists>u. VectorUnitize v = Some u"
  by (simp add: VectorUnitize_def del: split_paired_Ex)

lemma accumulate_away_total:
  assumes "position self \<noteq> None" "\<forall>(j, d) \<in> set ns. position (agents ! j) \<noteq> None"
  shows "\<exists>v. accumulate_away self agents ns away = Inr v"
  using assms
proof (induction ns arbitrary: away)
  case Nil
  then show ?case by (simp del: split_paired_Ex)
next
  case (Cons n ns)
  obtain j d where n: "n = (j, d)" by (cases n)
  from Cons.prems n obtain p q where pq: "position self = Some p" "position (agents ! j) = Some q"
    by auto
  from Cons.prems have rest: "\<forall>(j, d) \<in> set ns. position (agents ! j) \<noteq> None" by simp
  show ?case
  proof (cases "1 / 1000000000 < VectorLength (VectorSubtract p q)")
    case True
    then obtain u where "VectorUnitize (VectorSubtract p q) = Some u"
      using VectorUnitize_Some [of "VectorSubtract p q"] by auto
    with True n pq Cons.IH [OF Cons.prems(1) rest] show ?thesis
      by (simp add: VectorCreate_def del: split_paired_Ex)
  next
    case False
    with n pq Cons.IH [OF Cons.prems(1) rest] show ?thesis
      by (simp add: VectorCreate_def del: split_paired_Ex)
  qed
qed

lemma separation_total:
  assumes "position self \<noteq> None" "\<forall>(j, d) \<in> set (neighbors self). position (agents ! j) \<noteq> None"
  shows "\<exists>v'. separation self agents sw v = Inr v'"
proof -
  from accumulate_away_total [OF assms] obtain away where
    away: "accumulate_away self agents (neighbors self) zero3 = Inr away" by blast
  show ?thesis
  proof (cases "1 / 1000000000 < VectorLength away")
    case True
    then obtain u where "VectorUnitize away = Some u"
      using VectorUnitize_Some [of away] by auto
    with True away show ?thesis by (simp add: separation_def del: split_paired_Ex)
  next
    case False
    with away show ?thesis by (simp add: separation_def del: split_paired_Ex)
  qed
qed

lemma curvature_alignment_total: "\<exists>v'. curvature_alignment self aw v = Inr v'"
proof (cases "1 / 1000000 < VectorLength (curvature_dir self)")
  case True
  then obtain u where "VectorUnitize (curvature_dir self) = Some u"
    using VectorUnitize_Some [of "curvature_dir self"] by auto
  with True show ?thesis by (simp add: curvature_alignment_def Let_def del: split_paired_Ex)
next
  case False
  then show ?thesis by (simp add: curvature_alignment_def del: split_paired_Ex)
qed

lemma clamp_speed_total: "0 \<le> ms \<Longrightarrow> \<exists>v'. clamp_speed ms v = Inr v'"
proof (cases "ms < VectorLength v")
  case True
  assume "0 \<le> ms"
  with True obtain u where "VectorUnitize v = Some u"
    using VectorUnitize_Some [of v] by auto
  with True show ?thesis by (simp add: clamp_speed_def Let_def del: split_paired_Ex)
next
  case False
  then show ?thesis by (simp add: clamp_speed_def Let_def del: split_paired_Ex)
qed

lemma decide_total:
  assumes "position self \<noteq> None" "\<forall>(j, d) \<in> set (neighbors self). position (agents ! j) \<noteq> None"
    "0 \<le> max_speed P"
  shows "\<exists>a w'. decide self agents P w = Inr (a, w')"
proof (cases "is_alive self")
  case False
  then show ?thesis by (simp add: decide_def)
next
  case True
  obtain v2 where v2: "curvature_alignment self (alignment_weight P) (slope_resistance self (max_slope P)) = Inr v2"
    using curvature_alignment_total by blast
  obtain v3 where v3: "separation self agents (separation_weight P) v2 = Inr v3"
    using separation_total [OF assms(1,2)] by blast
  obtain v4 where v4: "clamp_speed (max_speed P) v3 = Inr v4"
    using clamp_speed_total [OF assms(3)] by blast
  from True v2 v3 v4 show ?thesis
    by (simp add: decide_def split: prod.splits)
qed

lemma move_total: "position self \<noteq> None \<Longrightarrow> \<exists>a. move self surface = Inr a"
  by (auto simp: move_def PointAdd_def Let_def)

lemma update_total:
  assumes "position (agents ! i) \<noteq> None" "0 \<le> max_speed P"
  shows "\<exists>a' sp w'. update i agents surface P w = Inr (a', sp, w')"
proof (cases "is_alive (agents ! i)")
  case False
  then show ?thesis by (simp add: update_def)
next
  case True
  define self1 where "self1 = sense (agents ! i) agents surface (vision_radius P)"
  have p1: "position self1 \<noteq> None"
    using assms(1) by (simp add: self1_def sense_frame)
  have nb': "position ((agents[i := self1]) ! j) \<noteq> None"
    if jd: "(j, d) \<in> set (neighbors self1)" for j d
  proof -
    from sense_neighbors_valid [OF jd [unfolded self1_def]]
    have j: "j < length agents" and dist: "Distance (position (agents ! i)) (position (agents ! j)) = Inr d"
      by simp_all
    from dist have "position (agents ! j) \<noteq> None"
      by (auto simp: Distance_def split: option.splits)
    with j p1 show ?thesis
      by (cases "j = i") simp_all
  qed
  then have nb: "\<forall>(j, d) \<in> set (neighbors self1). position ((agents[i := self1]) ! j) \<noteq> None"
    by blast
  from decide_total [OF p1 nb assms(2)] obtain self2 w2 where
    d: "decide self1 (agents[i := self1]) P w = Inr (self2, w2)" by blast
  from decide_frame [OF d] p1 have "position self2 \<noteq> None"
    by (metis agent.select_convs(2) agent.surjective agent.update_convs(3))
  from move_total [OF this] obtain self3 where m: "move self2 surface = Inr self3" by blast
  from True d m show ?thesis
    by (simp add: update_def Let_def self1_def [symmetric] split: prod.splits)
qed

lemma decide_fields:
  assumes "decide self agents P w = Inr (a, w')"
  shows "agent_id a = agent_id self" "position a = position self" "age a = age self"
    "is_alive a = is_alive self" "path a = path self" "uv a = uv self"
    "curvature_mean a = curvature_mean self" "curvature_dir a = curvature_dir self"
    "slope_vector a = slope_vector self" "slope_magnitude a = slope_magnitude self"
    "neighbors a = neighbors self"
  using assms
  by (auto simp: decide_def split: if_splits sum.splits prod.splits)

lemma move_fields:
  assumes "move self surface = Inr a"
  shows "agent_id a = agent_id self" "velocity a = velocity self" "age a = age self"
    "is_alive a = is_alive self" "uv a = uv self"
    "curvature_mean a = curvature_mean self" "curvature_dir a = curvature_dir self"
    "slope_vector a = slope_vector self" "slope_magnitude a = slope_magnitude self"
    "neighbors a = neighbors self"
  using assms
  by (auto simp: move_def Let_def split: if_splits sum.splits)

lemma move_path:
  assumes "move self surface = Inr a" "is_alive self"
  shows "path a = path self @ [position a]"
  using assms
  by (auto simp: move_def Let_def split: sum.splits)

text \<open>What an update of a living agent leaves of the sensed agent.\<close>

lemma update_alive_fields:
  assumes "is_alive (agents ! i)" "update i agents surface P w = Inr (a', sp, w')"
  shows "agent_id a' = agent_id (agents ! i)"
    "age a' = age (agents ! i) + 1"
    "uv a' = uv (sense (agents ! i) agents surface (vision_radius P))"
    "curvature_mean a' = curvature_mean (sense (agents ! i) agents surface (vision_radius P))"
    "curvature_dir a' = curvature_dir (sense (agents ! i) agents surface (vision_radius P))"
    "slope_vector a' = slope_vector (sense (agents ! i) agents surface (vision_radius P))"
    "slope_magnitude a' = slope_magnitude (sense (agents ! i) agents surface (vision_radius P))"
    "neighbors a' = neighbors (sense (agents ! i) agents surface (vision_radius P))"
    "path a' = path (agents ! i) @ [position a']"
    "is_alive a' \<longleftrightarrow> \<not> (max_age P < age (agents ! i) + 1 \<or>
        slope_kill P < slope_magnitude (sense (agents ! i) agents surface (vision_radius P)))"
    "\<not> is_alive a' \<longrightarrow> sp = None"
proof -
  define s1 where "s1 = sense (agents ! i) agents surface (vision_radius P)"
  from assms obtain self2 w2 self3 where
    d: "decide s1 (agents[i := s1]) P w = Inr (self2, w2)"
    and m: "move self2 surface = Inr self3"
    and r: "(max_age P < age self3 + 1 \<or> slope_kill P < slope_magnitude self3) \<and>
       a' = self3\<lparr>age := age self3 + 1, is_alive := False\<rparr> \<and> sp = None
     \<or> \<not> (max_age P < age self3 + 1 \<or> slope_kill P < slope_magnitude self3) \<and>
       a' = self3\<lparr>age := age self3 + 1\<rparr>"
    unfolding s1_def by (rule update_alive_elim) blast
  note df = decide_fields [OF d] and mf = move_fields [OF m]
  have alive2: "is_alive self2" using df(4) assms(1) by (simp add: s1_def sense_frame)
  have alive3: "is_alive self3" using mf(4) alive2 by simp
  note mp = move_path [OF m alive2]
  have same: "agent_id a' = agent_id self3" "age a' = age self3 + 1" "uv a' = uv self3"
    "curvature_mean a' = curvature_mean self3" "curvature_dir a' = curvature_dir self3"
    "slope_vector a' = slope_vector self3" "slope_magnitude a' = slope_magnitude self3"
    "neighbors a' = neighbors self3" "path a' = path self3" "position a' = position self3"
    using r by auto
  have live: "is_alive a' \<longleftrightarrow> \<not> (max_age P < age self3 + 1 \<or> slope_kill P < slope_magnitude self3)"
    using r alive3 by auto
  have dead: "\<not> is_alive a' \<longrightarrow> sp = None"
    using r alive3 by auto
  show "agent_id a' = agent_id (agents ! i)"
    by (simp add: same mf df s1_def sense_frame)
  show "age a' = age (agents ! i) + 1"
    by (simp add: same mf df s1_def sense_frame)
  show "uv a' = uv (sense (agents ! i) agents surface (vision_radius P))"
    by (simp add: same mf df s1_def [symmetric])
  show "curvature_mean a' = curvature_mean (sense (agents ! i) agents surface (vision_radius P))"
    by (simp add: same mf df s1_def [symmetric])
  show "curvature_dir a' = curvature_dir (sense (agents ! i) agents surface (vision_radius P))"
    by (simp add: same mf df s1_def [symmetric])
  show "slope_vector a' = slope_vector (sense (agents ! i) agents surface (vision_radius P))"
    by (simp add: same mf df s1_def [symmetric])
  show "slope_magnitude a' = slope_magnitude (sense (agents ! i) agents surface (vision_radius P))"
    by (simp add: same mf df s1_def [symmetric])
  show "neighbors a' = neighbors (sense (agents ! i) agents surface (vision_radius P))"
    by (simp add: same mf df s1_def [symmetric])
  show "path a' = path (agents ! i) @ [position a']"
    by (simp add: same mp df s1_def sense_frame)
  show "is_alive a' \<longleftrightarrow> \<not> (max_age P < age (agents ! i) + 1 \<or>
        slope_kill P < slope_magnitude (sense (agents ! i) agents surface (vision_radius P)))"
    by (simp add: live mf df s1_def sense_frame)
  show "\<not> is_alive a' \<longrightarrow> sp = None" by (rule dead)
qed

section \<open>Evaluation on concrete inputs\<close>

lemma VectorLength_x: "VectorLength (x, 0, 0) = \<bar>x\<bar>"
  by (simp add: VectorLength_def)

lemma VectorLength_y: "VectorLength (0, y, 0) = \<bar>y\<bar>"
  by (simp add: VectorLength_def)

lemma VectorLength_example_slope: "VectorLength (3 / 1000, 1 / 250, 0) = 1 / 200"
  by (simp add: VectorLength_def sqrt_example_slope)

lemmas vector_eval = VectorAdd_def VectorSubtract_def VectorScale_def VectorUnitize_def
  VectorCreate_def PointAdd_def Distance_def zero3_def VectorLength_x VectorLength_y
  VectorLength_example_slope

lemmas update_eval = update_def sense_defs decide_defs move_def vector_eval random_defs example_defs
      spawn_prob_def spawn_agent_near_def enumerate_eq_zip Let_def

lemma example_agent_update:
  "update 0 [example_agent] (Some example_surface) default_params example_world =
     Inr (example_agent_moved, None, example_world)"
  by (simp add: update_eval example_agent_def example_agent_moved_def)

section \<open>The population loop\<close>

lemma step_loop_store:
  assumes "step_loop surface P js (store, act, new, w) = Inr (store', act', new', w')"
  shows "length store' = length store \<and> (\<forall>j. j \<notin> set js \<longrightarrow> store' ! j = store ! j)"
  using assms
proof (induction js arbitrary: store act new w)
  case Nil
  then show ?case by simp
next
  case (Cons i js)
  from Cons.prems obtain self' sp w1 where
    u: "update i store surface P w = Inr (self', sp, w1)"
    and rest: "step_loop surface P js
        (store[i := self'], (if is_alive self' then act @ [i] else act),
         (case sp of None \<Rightarrow> new | Some c \<Rightarrow> new @ [c]), w1) = Inr (store', act', new', w')"
    by (auto split: sum.splits)
  from Cons.IH [OF rest] show ?case by auto
qed

lemma step_loop_sequential:
  assumes "step_loop surface P [k..<n] (store, act, new, w) = Inr (store', act', new', w')"
    "k \<le> i" "i < n" "n \<le> length store"
  shows "\<exists>wi sp wi'. update i (take i store' @ drop i store) surface P wi = Inr (store' ! i, sp, wi')"
  using assms
proof (induction "n - k" arbitrary: k store act new w)
  case 0
  then show ?case by simp
next
  case (Suc m)
  then have kn: "k < n" by simp
  then have upt: "[k..<n] = k # [Suc k..<n]" by (simp add: upt_conv_Cons)
  from Suc.prems(1) upt obtain self' sp w1 where
    u: "update k store surface P w = Inr (self', sp, w1)"
    and rest: "step_loop surface P [Suc k..<n]
        (store[k := self'], (if is_alive self' then act @ [k] else act),
         (case sp of None \<Rightarrow> new | Some c \<Rightarrow> new @ [c]), w1) = Inr (store', act', new', w')"
    by (auto split: sum.splits)
  from step_loop_store [OF rest] have len: "length store' = length store"
    and same: "\<And>j. j \<le> k \<Longrightarrow> store' ! j = store[k := self'] ! j"
    by auto
  show ?case
  proof (cases "i = k")
    case True
    show ?thesis
    proof -
      from kn Suc.prems(4) have inr: "k < length store" by simp
      have "take k store' = take k store"
        using same len inr by (intro nth_take_lemma) auto
      then have eq: "take k store' @ drop k store = store" by simp
      from same [of k] inr have "store' ! k = self'" by simp
      with u eq True show ?thesis by auto
    qed
  next
    case False
    with Suc.prems have ki: "Suc k \<le> i" by simp
    from Suc.hyps(2) kn have m: "m = n - Suc k" by simp
    from Suc.prems(4) have "n \<le> length (store[k := self'])" by simp
    from Suc.hyps(1) [OF m rest ki Suc.prems(3) this] obtain wi spi wi' where
      "update i (take i store' @ drop i (store[k := self'])) surface P wi = Inr (store' ! i, spi, wi')"
      by blast
    moreover from ki have "drop i (store[k := self']) = drop i store" by simp
    ultimately show ?thesis by auto
  qed
qed

section \<open>Claims about one update\<close>

text \<open>
  Claim C10, as the code has it. When the closest-point query for the agent's position
  gives nothing, sensing leaves \<open>curvature_mean\<close>, \<open>curvature_dir\<close>, \<open>slope_vector\<close> and
  \<open>slope_magnitude\<close> at their previous values and sets the surface coordinate \<open>uv\<close> to
  \<open>None\<close> (it is assigned before it is tested). Sensing raises nothing; the whole update of
  a living agent returns without an exception when the agent's position is a point and
  \<open>max_speed\<close> is not negative, and the four cached fields still hold their old values.
\<close>

theorem C10_failed_projection:
  assumes "get_uv surface (position (agents ! i)) = None"
  shows "(let s = sense (agents ! i) agents surface vr in
            uv s = None \<and> curvature_mean s = curvature_mean (agents ! i) \<and>
            curvature_dir s = curvature_dir (agents ! i) \<and>
            slope_vector s = slope_vector (agents ! i) \<and>
            slope_magnitude s = slope_magnitude (agents ! i)) \<and>
         (is_alive (agents ! i) \<and> position (agents ! i) \<noteq> None \<and> 0 \<le> max_speed P \<longrightarrow>
            (\<exists>a' sp w'. update i agents surface P w = Inr (a', sp, w') \<and>
               uv a' = None \<and> curvature_mean a' = curvature_mean (agents ! i) \<and>
               curvature_dir a' = curvature_dir (agents ! i) \<and>
               slope_vector a' = slope_vector (agents ! i) \<and>
               slope_magnitude a' = slope_magnitude (agents ! i)))"
proof -
  have g: "sense_geometry (agents ! i) surface = (agents ! i)\<lparr>uv := None\<rparr>"
    by (rule sense_geometry_failed [OF assms])
  have s: "uv (sense (agents ! i) agents surface r) = None"
    "curvature_mean (sense (agents ! i) agents surface r) = curvature_mean (agents ! i)"
    "curvature_dir (sense (agents ! i) agents surface r) = curvature_dir (agents ! i)"
    "slope_vector (sense (agents ! i) agents surface r) = slope_vector (agents ! i)"
    "slope_magnitude (sense (agents ! i) agents surface r) = slope_magnitude (agents ! i)" for r
    by (simp_all add: sense_geometry_fields g)
  have first: "let s = sense (agents ! i) agents surface vr in
            uv s = None \<and> curvature_mean s = curvature_mean (agents ! i) \<and>
            curvature_dir s = curvature_dir (agents ! i) \<and>
            slope_vector s = slope_vector (agents ! i) \<and>
            slope_magnitude s = slope_magnitude (agents ! i)"
    by (simp add: Let_def s)
  have second: "\<exists>a' sp w'. update i agents surface P w = Inr (a', sp, w') \<and>
               uv a' = None \<and> curvature_mean a' = curvature_mean (agents ! i) \<and>
               curvature_dir a' = curvature_dir (agents ! i) \<and>
               slope_vector a' = slope_vector (agents ! i) \<and>
               slope_magnitude a' = slope_magnitude (agents ! i)"
    if alive: "is_alive (agents ! i)" and pos: "position (agents ! i) \<noteq> None"
      and ms: "0 \<le> max_speed P"
  proof -
    from update_total [OF pos ms] obtain a' sp w' where
      u: "update i agents surface P w = Inr (a', sp, w')" by blast
    note f = update_alive_fields [OF alive u]
    from u f(3-7) show ?thesis by (simp add: s)
  qed
  from first second show ?thesis by blast
qed

theorem C10_failed_projection_witness:
  "get_uv (Some example_surface) (position ([example_agent_moved] ! 0)) = None \<and>
   (let s = sense ([example_agent_moved] ! 0) [example_agent_moved] (Some example_surface) (Some 1) in
      uv s = None \<and> curvature_mean s = curvature_mean ([example_agent_moved] ! 0) \<and>
      curvature_dir s = curvature_dir ([example_agent_moved] ! 0) \<and>
      slope_vector s = slope_vector ([example_agent_moved] ! 0) \<and>
      slope_magnitude s = slope_magnitude ([example_agent_moved] ! 0)) \<and>
   (is_alive ([example_agent_moved] ! 0) \<and> position ([example_agent_moved] ! 0) \<noteq> None \<and>
      0 \<le> max_speed default_params) \<and>
   (\<exists>a' sp w'. update 0 [example_agent_moved] (Some example_surface) default_params example_world
        = Inr (a', sp, w') \<and>
      uv a' = None \<and> curvature_mean a' = curvature_mean ([example_agent_moved] ! 0) \<and>
      curvature_dir a' = curvature_dir ([example_agent_moved] ! 0) \<and>
      slope_vector a' = slope_vector ([example_agent_moved] ! 0) \<and>
      slope_magnitude a' = slope_magnitude ([example_agent_moved] ! 0))"
proof -
  have h: "get_uv (Some example_surface) (position ([example_agent_moved] ! 0)) = None"
    by (simp add: get_uv_def example_surface_def example_agent_moved_def)
  have pre: "is_alive ([example_agent_moved] ! 0) \<and> position ([example_agent_moved] ! 0) \<noteq> None \<and>
      0 \<le> max_speed default_params"
    by (simp add: example_agent_moved_def default_params_def)
  from C10_failed_projection [OF h, of "Some 1" default_params example_world] pre h
  show ?thesis by blast
qed

text \<open>
  Claim C10 as stated fails for the surface coordinate. The agent of \<open>example_agent_update\<close>
  was sensed at \<open>uv = (3.3, 0)\<close> and then moved off the patch; at the next sensing the
  projection fails and \<open>uv\<close> does not keep its value.
\<close>

theorem C10_counterexample:
  "get_uv (Some example_surface) (position example_agent_moved) = None \<and>
   uv example_agent_moved = Some (33 / 10, 0) \<and>
   uv (sense example_agent_moved [example_agent_moved] (Some example_surface) (Some 1)) = None"
  by (simp add: sense_defs example_surface_def example_agent_moved_def Let_def)

text \<open>
  Claim C6. An update of a living agent that returns has incremented the age by one, the
  cached slope magnitude is the one left by this update's sensing, and the agent is dead
  afterwards exactly when \<open>age > max_age\<close> or \<open>slope_magnitude > slope_kill\<close>; so an agent
  whose sensed slope exceeds \<open>slope_kill\<close> on its first step is dead after it, whatever
  its age.
\<close>

theorem C6_death_rule:
  assumes "is_alive (agents ! i)" "update i agents surface P w = Inr (a', sp, w')"
  shows "age a' = age (agents ! i) + 1 \<and>
         slope_magnitude a' = slope_magnitude (sense (agents ! i) agents surface (vision_radius P)) \<and>
         (\<not> is_alive a' \<longleftrightarrow> age a' > max_age P \<or> slope_magnitude a' > slope_kill P)"
  using update_alive_fields [OF assms] by simp

theorem C6_death_rule_witness:
  "is_alive ([Agent_new 1 (Some (0, 0, 0)) (3 / 10, 0, 0)] ! 0) \<and>
   (\<exists>a'. update 0 [Agent_new 1 (Some (0, 0, 0)) (3 / 10, 0, 0)] (Some example_surface)
            (default_params\<lparr>slope_kill := 1 / 1000\<rparr>) example_world
          = Inr (a', None, example_world) \<and>
        age a' = 1 \<and> slope_magnitude a' = 1 / 200 \<and> \<not> is_alive a' \<and>
        \<not> age a' > max_age (default_params\<lparr>slope_kill := 1 / 1000\<rparr>) \<and>
        slope_magnitude a' > slope_kill (default_params\<lparr>slope_kill := 1 / 1000\<rparr>))"
proof -
  define a' where "a' =
     \<lparr>agent_id = 1, position = Some (477 / 1600, 0, 0), velocity = (477 / 1600, 0, 0),
      age = 1, is_alive = False, path = [Some (0, 0, 0), Some (477 / 1600, 0, 0)],
      uv = Some (0, 0), curvature_mean = 0, curvature_dir = (0, 0, 0),
      slope_vector = (3 / 1000, 1 / 250, 0), slope_magnitude = 1 / 200, neighbors = []\<rparr>"
  have h1: "is_alive ([Agent_new 1 (Some (0, 0, 0)) (3 / 10, 0, 0)] ! 0)"
    by (simp add: Agent_new_def)
  have h2: "update 0 [Agent_new 1 (Some (0, 0, 0)) (3 / 10, 0, 0)] (Some example_surface)
            (default_params\<lparr>slope_kill := 1 / 1000\<rparr>) example_world
          = Inr (a', None, example_world)"
    by (simp add: update_eval a'_def)
  from C6_death_rule [OF h1 h2] h1 h2 show ?thesis
    by (auto simp: a'_def default_params_def)
qed

section \<open>Spawning, building and the population\<close>

lemma random_uniform_uuids [simp]: "uuids (snd (random_uniform a b w)) = uuids w"
  by (simp add: random_uniform_def random_random_def)

lemma random_random_uuids [simp]: "uuids (snd (random_random w)) = uuids w"
  by (simp add: random_random_def)

lemma Agent_init_eq: "Agent_init pos vel w = (Agent_new (uuids w 0) pos vel, w\<lparr>uuids := (\<lambda>n. uuids w (Suc n))\<rparr>)"
  by (simp add: Agent_init_def uuid4_def)

lemma spawn_agent_near_Some:
  assumes "spawn_agent_near parent surface offset w = (Some c, w')"
  shows "\<exists>pos vel. c = Agent_new (uuids w 0) pos vel"
    "surface \<noteq> None" "position parent \<noteq> None"
    "uuids w' = (\<lambda>n. uuids w (Suc n))"
  using assms
  by (auto simp: spawn_agent_near_def Agent_init_eq PointAdd_def Let_def random_uniform_def random_random_def
      split: prod.splits sum.splits option.splits)

lemma spawn_agent_near_None:
  assumes "spawn_agent_near parent surface offset w = (None, w')"
  shows "surface = None \<or> position parent = None" "uuids w' = uuids w"
  using assms
  by (auto simp: spawn_agent_near_def Agent_init_eq PointAdd_def Let_def random_uniform_def random_random_def
      split: prod.splits sum.splits option.splits)

lemma spawn_agent_near_succeeds:
  assumes "surface \<noteq> None" "position parent \<noteq> None"
  shows "\<exists>c w'. spawn_agent_near parent surface offset w = (Some c, w')"
  using assms
  by (auto simp: spawn_agent_near_def Agent_init_eq PointAdd_def Let_def random_uniform_def random_random_def
      split: prod.splits sum.splits option.splits)

lemma path_invariant_Agent_new: "path_invariant (Agent_new i pos vel)"
  by (simp add: path_invariant_def Agent_new_def)

lemma update_spawned:
  assumes "update i agents surface P w = Inr (a', Some c, w')"
  shows "\<exists>k pos vel. c = Agent_new k pos vel"
proof -
  have alive: "is_alive (agents ! i)"
  proof (rule ccontr)
    assume "\<not> is_alive (agents ! i)"
    from update_dead [OF this, of surface P w] assms show False by simp
  qed
  from alive assms show ?thesis
  proof (rule update_alive_elim)
    fix self2 w2 self3
    assume "(max_age P < age self3 + 1 \<or> slope_kill P < slope_magnitude self3) \<and>
       a' = self3\<lparr>age := age self3 + 1, is_alive := False\<rparr> \<and> Some c = None \<and> w' = w2
     \<or> \<not> (max_age P < age self3 + 1 \<or> slope_kill P < slope_magnitude self3) \<and>
       a' = self3\<lparr>age := age self3 + 1\<rparr> \<and>
       (if rng w2 0 < spawn_prob P (self3\<lparr>age := age self3 + 1\<rparr>)
        then (Some c, w') = spawn_agent_near (self3\<lparr>age := age self3 + 1\<rparr>) surface 0.2 (snd (random_random w2))
        else Some c = None \<and> w' = snd (random_random w2))"
    then have "spawn_agent_near (self3\<lparr>age := age self3 + 1\<rparr>) surface 0.2 (snd (random_random w2)) = (Some c, w')"
      by (auto split: if_splits)
    from spawn_agent_near_Some(1) [OF this] show ?thesis by blast
  qed
qed

lemma update_path_invariant:
  assumes "update i agents surface P w = Inr (a', sp, w')" "path_invariant (agents ! i)"
  shows "path_invariant a'"
proof (cases "is_alive (agents ! i)")
  case True
  from update_alive_fields(9) [OF True assms(1)] show ?thesis
    by (simp add: path_invariant_def)
next
  case False
  with assms show ?thesis by (simp add: update_def)
qed

lemma step_loop_new_agents:
  assumes "step_loop surface P js (store, act, new, w) = Inr (store', act', new', w')"
    "c \<in> set new'"
  shows "c \<in> set new \<or> (\<exists>k pos vel. c = Agent_new k pos vel)"
  using assms
proof (induction js arbitrary: store act new w)
  case Nil
  then show ?case by simp
next
  case (Cons i js)
  from Cons.prems(1) obtain self' sp w1 where
    u: "update i store surface P w = Inr (self', sp, w1)"
    and rest: "step_loop surface P js
        (store[i := self'], (if is_alive self' then act @ [i] else act),
         (case sp of None \<Rightarrow> new | Some c \<Rightarrow> new @ [c]), w1) = Inr (store', act', new', w')"
    by (auto split: sum.splits)
  from Cons.IH [OF rest Cons.prems(2)]
  have "c \<in> set (case sp of None \<Rightarrow> new | Some c \<Rightarrow> new @ [c]) \<or> (\<exists>k pos vel. c = Agent_new k pos vel)" .
  then show ?case
  proof
    assume c: "c \<in> set (case sp of None \<Rightarrow> new | Some c \<Rightarrow> new @ [c])"
    show ?thesis
    proof (cases sp)
      case None
      with c show ?thesis by simp
    next
      case (Some d)
      with c have "c \<in> set new \<or> c = d" by auto
      with update_spawned [OF u [unfolded Some]] show ?thesis by blast
    qed
  qed blast
qed

lemma step_loop_active:
  assumes "step_loop surface P js (store, act, new, w) = Inr (store', act', new', w')"
    "distinct js" "\<forall>j \<in> set js. j < length store"
    "\<forall>j \<in> set act. j \<notin> set js \<and> j < length store \<and> is_alive (store ! j)"
  shows "\<forall>j \<in> set act'. j < length store' \<and> is_alive (store' ! j)"
  using assms
proof (induction js arbitrary: store act new w)
  case Nil
  then show ?case by simp
next
  case (Cons i js)
  from Cons.prems(1) obtain self' sp w1 where
    u: "update i store surface P w = Inr (self', sp, w1)"
    and rest: "step_loop surface P js
        (store[i := self'], (if is_alive self' then act @ [i] else act),
         (case sp of None \<Rightarrow> new | Some c \<Rightarrow> new @ [c]), w1) = Inr (store', act', new', w')"
    by (auto split: sum.splits)
  have d: "distinct js" and b: "\<forall>j \<in> set js. j < length (store[i := self'])"
    using Cons.prems(2,3) by simp_all
  have a: "\<forall>j \<in> set (if is_alive self' then act @ [i] else act).
      j \<notin> set js \<and> j < length (store[i := self']) \<and> is_alive (store[i := self'] ! j)"
    using Cons.prems(2,3,4) by (auto simp: nth_list_update)
  from Cons.IH [OF rest d b a] show ?case .
qed

lemma build_loop_members:
  assumes "a \<in> set (fst (build_loop n surface agents w))"
  shows "a \<in> set agents \<or> (\<exists>k pos vel. a = Agent_new k pos vel)"
  using assms
proof (induction n arbitrary: agents w)
  case 0
  then show ?case by simp
next
  case (Suc n)
  obtain pos w1 where g: "generate_random_point_on_surface surface w = (pos, w1)"
    by (cases "generate_random_point_on_surface surface w")
  show ?case
  proof (cases pos)
    case None
    with Suc.prems g have "a \<in> set (fst (build_loop n surface agents w1))" by simp
    from Suc.IH [OF this] show ?thesis .
  next
    case (Some p)
    obtain vx w2 where r1: "random_uniform (- 0.05) 0.05 w1 = (vx, w2)"
      by (cases "random_uniform (- 0.05) 0.05 w1")
    obtain vy w3 where r2: "random_uniform (- 0.05) 0.05 w2 = (vy, w3)"
      by (cases "random_uniform (- 0.05) 0.05 w2")
    from Suc.prems g Some r1 r2
    have "a \<in> set (fst (build_loop n surface
        (agents @ [Agent_new (uuids w3 0) pos (vx, vy, 0)]) (w3\<lparr>uuids := (\<lambda>n. uuids w3 (Suc n))\<rparr>)))"
      by (simp add: Agent_init_eq)
    from Suc.IH [OF this] show ?thesis
      by (simp del: split_paired_Ex) blast
  qed
qed

lemma build_agents_members:
  assumes "a \<in> set (fst (build_agents N surface w))"
  shows "\<exists>k pos vel. a = Agent_new k pos vel"
proof -
  from assms have "a \<in> set (fst (build_loop (nat N) surface [] w))"
    by (auto simp: build_agents_def split: option.splits if_splits)
  from build_loop_members [OF this] show ?thesis by simp
qed

lemma step_population_paths:
  assumes loop: "step_loop surface P [0..<length agents] (agents, [], [], w) = Inr (store', act', new', w')"
    and inv: "\<forall>a \<in> set agents. path_invariant a"
    and mem: "a \<in> set (map (\<lambda>i. store' ! i) act' @ new')"
  shows "path_invariant a \<and>
    ((\<exists>j < length agents. is_alive (agents ! j) \<and> path a = path (agents ! j) @ [position a]) \<or>
     path a = [position a])"
proof -
  from mem consider j where "j \<in> set act'" "a = store' ! j" | "a \<in> set new'" by auto
  then show ?thesis
  proof cases
    case 2
    from step_loop_new_agents [OF loop 2] obtain k pos vel where "a = Agent_new k pos vel"
      by auto
    then show ?thesis by (simp add: path_invariant_def Agent_new_def)
  next
    case 1
    from step_loop_active [OF loop] 1(1) have j': "j < length store'" and alive': "is_alive (store' ! j)"
      by auto
    from step_loop_store [OF loop] have len: "length store' = length agents" by simp
    with j' have j: "j < length agents" by simp
    from step_loop_sequential [OF loop _ j] obtain wj sp wj' where
      u: "update j (take j store' @ drop j agents) surface P wj = Inr (store' ! j, sp, wj')"
      by auto
    have at: "(take j store' @ drop j agents) ! j = agents ! j"
      using j len by (simp add: nth_append)
    have alive: "is_alive (agents ! j)"
    proof (rule ccontr)
      assume "\<not> is_alive (agents ! j)"
      then have dead: "\<not> is_alive ((take j store' @ drop j agents) ! j)" using at by simp
      from update_dead [OF dead, of surface P wj] u at have "store' ! j = agents ! j" by simp
      with alive' \<open>\<not> is_alive (agents ! j)\<close> show False by simp
    qed
    then have alive2: "is_alive ((take j store' @ drop j agents) ! j)" using at by simp
    from update_alive_fields(9) [OF alive2 u] at
    have p: "path (store' ! j) = path (agents ! j) @ [position (store' ! j)]" by simp
    then have "path_invariant (store' ! j)" by (simp add: path_invariant_def)
    with p j alive 1(2) show ?thesis by auto
  qed
qed

lemma RunScript_path_invariant:
  assumes run: "RunScript mt seed N reset surface P (component, w) = Inr (Some agents', w')"
    and inv: "\<forall>xs. component = Some xs \<longrightarrow> (\<forall>a \<in> set xs. path_invariant a)"
    and mem: "a \<in> set agents'"
  shows "path_invariant a"
proof -
  define w1 where "w1 = seed_everything mt seed w"
  define start where "start = (if reset \<or> component = None then build_agents N surface w1
             else (the component, w1))"
  obtain agents w2 where st: "start = (agents, w2)" by (cases start)
  have inv0: "\<forall>a \<in> set agents. path_invariant a"
  proof (cases "reset \<or> component = None")
    case True
    with st have "agents = fst (build_agents N surface w1)" by (simp add: start_def)
    then show ?thesis using build_agents_members path_invariant_Agent_new by metis
  next
    case False
    with st have "component = Some agents" by (auto simp: start_def)
    with inv show ?thesis by simp
  qed
  have st': "(if reset \<or> component = None then build_agents N surface (seed_everything mt seed w)
             else (the component, seed_everything mt seed w)) = (agents, w2)"
    using st unfolding start_def w1_def .
  from run obtain store' act' new' where
    loop: "step_loop surface P [0..<length agents] (agents, [], [], w2) = Inr (store', act', new', w')"
    and res: "agents' = map (\<lambda>i. store' ! i) act' @ new'"
    unfolding RunScript_def Let_def prod.case st'
    by (auto split: sum.splits)
  from step_population_paths [OF loop inv0] mem res show ?thesis by simp
qed

lemma example_step_loop:
  "step_loop (Some example_surface) default_params [0..<length [example_agent]]
     ([example_agent], [], [], example_world) = Inr ([example_agent_moved], [0], [], example_world)"
  by (simp add: example_agent_update) (simp add: example_agent_moved_def)

lemma example_RunScript:
  "RunScript mt None N False (Some example_surface) default_params (Some [example_agent], example_world)
     = Inr (Some [example_agent_moved], example_world)"
  using example_step_loop
  by (simp add: RunScript_def seed_everything_def)

text \<open>
  Claim C8. The constructor leaves \<open>path = [position]\<close>. An update that returns keeps the
  invariant (the path is not empty and its last element is the position); for a living
  agent it appends exactly one element, the new position, and a dead agent is returned
  unchanged. After one pass of the population loop every member of the next population
  satisfies the invariant, and is either a member of the old population with one position
  appended or a spawned agent with \<open>path = [position]\<close>; \<open>RunScript\<close> keeps the invariant
  for the population it stores.
\<close>

theorem C8_path_invariant:
  "path_invariant (fst (Agent_init pos vel w0)) \<and>
   (update i agents surface P w = Inr (a', sp, w') \<and> path_invariant (agents ! i) \<longrightarrow>
      path_invariant a' \<and>
      (is_alive (agents ! i) \<longrightarrow> path a' = path (agents ! i) @ [position a']) \<and>
      (\<not> is_alive (agents ! i) \<longrightarrow> a' = agents ! i)) \<and>
   (step_loop surface P [0..<length agents] (agents, [], [], w) = Inr (store, active, new_agents, w'') \<and>
      (\<forall>a \<in> set agents. path_invariant a) \<longrightarrow>
      (\<forall>a \<in> set (map (\<lambda>i. store ! i) active @ new_agents).
         path_invariant a \<and>
         ((\<exists>j < length agents. is_alive (agents ! j) \<and> path a = path (agents ! j) @ [position a]) \<or>
          path a = [position a]))) \<and>
   (RunScript mt seed N reset surface P (component, w) = Inr (Some agents', w''') \<and>
      (\<forall>xs. component = Some xs \<longrightarrow> (\<forall>a \<in> set xs. path_invariant a)) \<longrightarrow>
      (\<forall>a \<in> set agents'. path_invariant a))"
proof -
  have c1: "path_invariant (fst (Agent_init pos vel w0))"
    by (simp add: Agent_init_eq path_invariant_Agent_new)
  have c2: "path_invariant a' \<and>
      (is_alive (agents ! i) \<longrightarrow> path a' = path (agents ! i) @ [position a']) \<and>
      (\<not> is_alive (agents ! i) \<longrightarrow> a' = agents ! i)"
    if u: "update i agents surface P w = Inr (a', sp, w')" and p: "path_invariant (agents ! i)"
  proof -
    have "path a' = path (agents ! i) @ [position a']" if "is_alive (agents ! i)"
      using update_alive_fields(9) [OF that u] .
    moreover have "a' = agents ! i" if "\<not> is_alive (agents ! i)"
      using update_dead [OF that, of surface P w] u by simp
    ultimately show ?thesis using update_path_invariant [OF u p] by blast
  qed
  have c3: "\<forall>a \<in> set (map (\<lambda>i. store ! i) active @ new_agents).
         path_invariant a \<and>
         ((\<exists>j < length agents. is_alive (agents ! j) \<and> path a = path (agents ! j) @ [position a]) \<or>
          path a = [position a])"
    if l: "step_loop surface P [0..<length agents] (agents, [], [], w) = Inr (store, active, new_agents, w'')"
      and p: "\<forall>a \<in> set agents. path_invariant a"
    using step_population_paths [OF l p] by blast
  have c4: "\<forall>a \<in> set agents'. path_invariant a"
    if r: "RunScript mt seed N reset surface P (component, w) = Inr (Some agents', w''')"
      and p: "\<forall>xs. component = Some xs \<longrightarrow> (\<forall>a \<in> set xs. path_invariant a)"
    using RunScript_path_invariant [OF r p] by blast
  from c1 c2 c3 c4 show ?thesis by blast
qed

theorem C8_path_invariant_witness:
  "path_invariant (fst (Agent_init (Some (0, 0, 0)) (0, 0, 0) example_world)) \<and>
   update 0 [example_agent] (Some example_surface) default_params example_world
     = Inr (example_agent_moved, None, example_world) \<and>
   path_invariant ([example_agent] ! 0) \<and> is_alive ([example_agent] ! 0) \<and>
   path_invariant example_agent_moved \<and>
   path example_agent_moved = path ([example_agent] ! 0) @ [position example_agent_moved] \<and>
   length (path example_agent_moved) = length (path example_agent) + 1 \<and>
   step_loop (Some example_surface) default_params [0..<length [example_agent]]
     ([example_agent], [], [], example_world) = Inr ([example_agent_moved], [0], [], example_world) \<and>
   RunScript (\<lambda>s n. 0) None 1 False (Some example_surface) default_params
     (Some [example_agent], example_world) = Inr (Some [example_agent_moved], example_world)"
proof -
  have p: "path_invariant ([example_agent] ! 0)" and al: "is_alive ([example_agent] ! 0)"
    by (simp_all add: path_invariant_def example_agent_def Agent_new_def)
  from p have pa: "\<forall>a \<in> set [example_agent]. path_invariant a" by simp
  from p have pc: "\<forall>xs. Some [example_agent] = Some xs \<longrightarrow> (\<forall>a \<in> set xs. path_invariant a)" by simp
  note inst = C8_path_invariant [where pos = "Some (0, 0, 0)" and vel = "(0, 0, 0)" and ?w0.0 = example_world
      and i = 0 and agents = "[example_agent]" and surface = "Some example_surface"
      and P = default_params and w = example_world and a' = example_agent_moved and sp = None
      and w' = example_world and store = "[example_agent_moved]" and active = "[0]"
      and new_agents = "[]" and w'' = example_world and mt = "\<lambda>s n. 0" and seed = None and N = 1
      and reset = False and component = "Some [example_agent]" and agents' = "[example_agent_moved]"
      and w''' = example_world]
  from inst example_agent_update example_step_loop example_RunScript [of "\<lambda>s n. 0" 1] p al pa pc
  have "path_invariant (fst (Agent_init (Some (0, 0, 0)) (0, 0, 0) example_world))"
    and "path_invariant example_agent_moved"
    and "path example_agent_moved = path ([example_agent] ! 0) @ [position example_agent_moved]"
    by blast+
  with example_agent_update example_step_loop example_RunScript [of "\<lambda>s n. 0" 1] p al
  show ?thesis by simp
qed

section \<open>The spawn rule\<close>

lemma decide_uuids:
  assumes "decide self agents P w = Inr (a, w')"
  shows "uuids w' = uuids w"
  using assms
  by (auto simp: decide_def jitter_if_stuck_def random_uniform_def random_random_def
      split: if_splits sum.splits prod.splits)

lemma spawn_prob_eq:
  "spawn_prob P a = (if int (length (neighbors a)) > max_neighbors P then 0
                     else if \<bar>curvature_mean a\<bar> > curvature_spawn P then spawn_chance P * 3
                     else spawn_chance P)"
  by (simp add: spawn_prob_def Let_def)

lemma Agent_new_fields:
  "agent_id (Agent_new k pos vel) = k" "age (Agent_new k pos vel) = 0"
  "is_alive (Agent_new k pos vel)" "path (Agent_new k pos vel) = [position (Agent_new k pos vel)]"
  "position (Agent_new k pos vel) = pos" "velocity (Agent_new k pos vel) = vel"
  by (simp_all add: Agent_new_def)

lemma example_parent_update_no_surface:
  "update 0 [example_parent] None eager_params example_world
     = Inr (example_parent_moved, None, example_world)"
  by (simp add: update_eval example_parent_def eager_params_def example_parent_moved_def)

lemma example_parent_decide_no_surface:
  "decide (sense ([example_parent] ! 0) [example_parent] None (vision_radius eager_params))
     ([example_parent][0 := sense ([example_parent] ! 0) [example_parent] None (vision_radius eager_params)])
     eager_params example_world
   = Inr (example_parent\<lparr>neighbors := []\<rparr>, example_world)"
  by (simp add: update_eval example_parent_def eager_params_def)

lemma example_parent_update:
  "update 0 [example_parent] (Some example_surface) eager_params example_world
     = Inr (example_parent_projected, Some (Agent_new 100 (Some (477 / 1600, 0, 0)) (0, 0, 0)),
            example_world\<lparr>uuids := (\<lambda>n. 101 + n)\<rparr>)"
  by (simp add: update_eval example_parent_def eager_params_def example_parent_projected_def)

text \<open>
  Claim C7, as the code has it. For a living agent whose update returns and leaves it
  alive: the spawn probability is \<open>spawn_chance\<close>, times 3 when
  \<open>|curvature_mean| > curvature_spawn\<close>, and 0 when the number of neighbors exceeds
  \<open>max_neighbors\<close>; one sample of \<open>random.random()\<close> is drawn after the decision stage; a
  child is returned exactly when the sample is below the probability and the construction of
  the child does not fail, which it does when the surface is \<open>None\<close> or the parent's
  position is no point (\<open>spawn_agent_near\<close> then returns \<open>None\<close>). A returned child carries
  the next identifier of \<open>uuid4\<close>, which is consumed, and has \<open>age = 0\<close>,
  \<open>is_alive = True\<close> and \<open>path = [position]\<close>.
\<close>

theorem C7_spawn_rule:
  assumes "is_alive (agents ! i)" "update i agents surface P w = Inr (a', sp, w')" "is_alive a'"
  shows "spawn_prob P a' =
           (if int (length (neighbors a')) > max_neighbors P then 0
            else if \<bar>curvature_mean a'\<bar> > curvature_spawn P then spawn_chance P * 3
            else spawn_chance P) \<and>
         (\<exists>self2 w2.
            decide (sense (agents ! i) agents surface (vision_radius P))
              (agents[i := sense (agents ! i) agents surface (vision_radius P)]) P w = Inr (self2, w2) \<and>
            (sp \<noteq> None \<longleftrightarrow> rng w2 0 < spawn_prob P a' \<and> surface \<noteq> None \<and> position a' \<noteq> None) \<and>
            (\<not> rng w2 0 < spawn_prob P a' \<longrightarrow> w' = snd (random_random w2))) \<and>
         (\<forall>c. sp = Some c \<longrightarrow>
            (\<exists>pos vel. c = Agent_new (uuids w 0) pos vel) \<and> agent_id c = uuids w 0 \<and>
            age c = 0 \<and> is_alive c \<and> path c = [position c] \<and>
            uuids w' = (\<lambda>n. uuids w (Suc n)))"
proof -
  define s1 where "s1 = sense (agents ! i) agents surface (vision_radius P)"
  from assms(1,2) obtain self2 w2 self3 where
    d: "decide s1 (agents[i := s1]) P w = Inr (self2, w2)"
    and m: "move self2 surface = Inr self3"
    and r: "(max_age P < age self3 + 1 \<or> slope_kill P < slope_magnitude self3) \<and>
       a' = self3\<lparr>age := age self3 + 1, is_alive := False\<rparr> \<and> sp = None \<and> w' = w2
     \<or> \<not> (max_age P < age self3 + 1 \<or> slope_kill P < slope_magnitude self3) \<and>
       a' = self3\<lparr>age := age self3 + 1\<rparr> \<and>
       (if rng w2 0 < spawn_prob P (self3\<lparr>age := age self3 + 1\<rparr>)
        then (sp, w') = spawn_agent_near (self3\<lparr>age := age self3 + 1\<rparr>) surface 0.2 (snd (random_random w2))
        else sp = None \<and> w' = snd (random_random w2))"
    unfolding s1_def by (rule update_alive_elim)
  from r assms(3) have a': "a' = self3\<lparr>age := age self3 + 1\<rparr>"
    and sp: "if rng w2 0 < spawn_prob P a'
        then (sp, w') = spawn_agent_near a' surface 0.2 (snd (random_random w2))
        else sp = None \<and> w' = snd (random_random w2)"
    by auto
  have u2: "uuids (snd (random_random w2)) = uuids w"
    using decide_uuids [OF d] by simp
  have iff: "sp \<noteq> None \<longleftrightarrow> rng w2 0 < spawn_prob P a' \<and> surface \<noteq> None \<and> position a' \<noteq> None"
  proof (cases "rng w2 0 < spawn_prob P a'")
    case False
    with sp show ?thesis by simp
  next
    case True
    with sp have eq: "spawn_agent_near a' surface 0.2 (snd (random_random w2)) = (sp, w')" by simp
    show ?thesis
    proof (cases sp)
      case None
      with spawn_agent_near_None(1) [OF eq [unfolded None]] show ?thesis by auto
    next
      case (Some c)
      with spawn_agent_near_Some(2,3) [OF eq [unfolded Some]] True show ?thesis by simp
    qed
  qed
  have no: "w' = snd (random_random w2)" if "\<not> rng w2 0 < spawn_prob P a'"
    using sp that by simp
  have child: "(\<exists>pos vel. c = Agent_new (uuids w 0) pos vel) \<and> agent_id c = uuids w 0 \<and>
            age c = 0 \<and> is_alive c \<and> path c = [position c] \<and>
            uuids w' = (\<lambda>n. uuids w (Suc n))" if c: "sp = Some c" for c
  proof -
    from sp c have t: "rng w2 0 < spawn_prob P a'" by (auto split: if_splits)
    with sp c have eq: "spawn_agent_near a' surface 0.2 (snd (random_random w2)) = (Some c, w')" by simp
    from spawn_agent_near_Some(1,4) [OF eq] u2 obtain pos vel where
      "c = Agent_new (uuids w 0) pos vel" "uuids w' = (\<lambda>n. uuids w (Suc n))" by auto
    then show ?thesis by (simp add: Agent_new_fields del: split_paired_Ex) blast
  qed
  have ex: "\<exists>self2 w2.
            decide s1 (agents[i := s1]) P w = Inr (self2, w2) \<and>
            (sp \<noteq> None \<longleftrightarrow> rng w2 0 < spawn_prob P a' \<and> surface \<noteq> None \<and> position a' \<noteq> None) \<and>
            (\<not> rng w2 0 < spawn_prob P a' \<longrightarrow> w' = snd (random_random w2))"
    by (rule exI [of _ self2], rule exI [of _ w2]) (use d iff no in simp)
  from ex child spawn_prob_eq [of P a'] show ?thesis
    unfolding s1_def by blast
qed

theorem C7_spawn_rule_witness:
  "is_alive ([example_parent] ! 0) \<and>
   update 0 [example_parent] (Some example_surface) eager_params example_world
     = Inr (example_parent_projected, Some (Agent_new 100 (Some (477 / 1600, 0, 0)) (0, 0, 0)),
            example_world\<lparr>uuids := (\<lambda>n. 101 + n)\<rparr>) \<and>
   is_alive example_parent_projected \<and>
   spawn_prob eager_params example_parent_projected = 1 \<and>
   agent_id (Agent_new 100 (Some (477 / 1600, 0, 0)) (0, 0, 0)) = uuids example_world 0 \<and>
   age (Agent_new 100 (Some (477 / 1600, 0, 0)) (0, 0, 0)) = 0 \<and>
   is_alive (Agent_new 100 (Some (477 / 1600, 0, 0)) (0, 0, 0)) \<and>
   path (Agent_new 100 (Some (477 / 1600, 0, 0)) (0, 0, 0))
     = [position (Agent_new 100 (Some (477 / 1600, 0, 0)) (0, 0, 0))] \<and>
   (\<exists>self2 w2.
      decide (sense ([example_parent] ! 0) [example_parent] (Some example_surface) (vision_radius eager_params))
        ([example_parent][0 := sense ([example_parent] ! 0) [example_parent] (Some example_surface)
            (vision_radius eager_params)]) eager_params example_world = Inr (self2, w2) \<and>
      rng w2 0 < spawn_prob eager_params example_parent_projected)"
proof -
  have h1: "is_alive ([example_parent] ! 0)"
    by (simp add: example_parent_def Agent_new_def)
  have h3: "is_alive example_parent_projected"
    by (simp add: example_parent_projected_def)
  note r = C7_spawn_rule [OF h1 example_parent_update h3]
  from r have p: "spawn_prob eager_params example_parent_projected = 1"
    by (simp add: example_parent_projected_def eager_params_def default_params_def)
  from r have c: "agent_id (Agent_new 100 (Some (477 / 1600, 0, 0)) (0, 0, 0)) = uuids example_world 0 \<and>
      age (Agent_new 100 (Some (477 / 1600, 0, 0)) (0, 0, 0)) = 0 \<and>
      is_alive (Agent_new 100 (Some (477 / 1600, 0, 0)) (0, 0, 0)) \<and>
      path (Agent_new 100 (Some (477 / 1600, 0, 0)) (0, 0, 0))
        = [position (Agent_new 100 (Some (477 / 1600, 0, 0)) (0, 0, 0))]"
    by blast
  from r have e: "\<exists>self2 w2.
      decide (sense ([example_parent] ! 0) [example_parent] (Some example_surface) (vision_radius eager_params))
        ([example_parent][0 := sense ([example_parent] ! 0) [example_parent] (Some example_surface)
            (vision_radius eager_params)]) eager_params example_world = Inr (self2, w2) \<and>
      rng w2 0 < spawn_prob eager_params example_parent_projected"
    by blast
  from h1 example_parent_update h3 p c e show ?thesis by blast
qed

text \<open>
  Claim C7 as stated fails: without a surface the parent survives, the sample \<open>0.5\<close> is
  below the probability \<open>1\<close>, and no child is returned.
\<close>

theorem C7_counterexample:
  "is_alive ([example_parent] ! 0) \<and>
   update 0 [example_parent] None eager_params example_world
     = Inr (example_parent_moved, None, example_world) \<and>
   is_alive example_parent_moved \<and>
   decide (sense ([example_parent] ! 0) [example_parent] None (vision_radius eager_params))
     ([example_parent][0 := sense ([example_parent] ! 0) [example_parent] None (vision_radius eager_params)])
     eager_params example_world
   = Inr (example_parent\<lparr>neighbors := []\<rparr>, example_world) \<and>
   spawn_prob eager_params example_parent_moved = 1 \<and>
   rng example_world 0 < spawn_prob eager_params example_parent_moved"
  using example_parent_update_no_surface example_parent_decide_no_surface
  by (simp add: example_parent_def example_parent_moved_def Agent_new_def spawn_prob_def
      eager_params_def default_params_def example_world_def)

section \<open>The decision stage\<close>

lemma VectorLength_eq: "VectorLength (x, y, z) = sqrt (x\<^sup>2 + y\<^sup>2 + z\<^sup>2)"
  by (simp add: VectorLength_def power2_eq_square)

lemma VectorLength_scale: "VectorLength (VectorScale v s) = \<bar>s\<bar> * VectorLength v"
proof (cases v)
  case (fields x y z)
  have "(x * s)\<^sup>2 + (y * s)\<^sup>2 + (z * s)\<^sup>2 = s\<^sup>2 * (x\<^sup>2 + y\<^sup>2 + z\<^sup>2)"
    by (simp add: power2_eq_square algebra_simps)
  then have "sqrt ((x * s)\<^sup>2 + (y * s)\<^sup>2 + (z * s)\<^sup>2) = \<bar>s\<bar> * sqrt (x\<^sup>2 + y\<^sup>2 + z\<^sup>2)"
    by (simp add: real_sqrt_mult)
  with fields show ?thesis
    by (simp add: VectorLength_eq VectorScale_def)
qed

lemma VectorUnitize_normalize: "VectorLength v \<noteq> 0 \<Longrightarrow> VectorUnitize v = Some (normalize v)"
  by (simp add: VectorUnitize_def normalize_def)

lemma VectorLength_normalize: "VectorLength v \<noteq> 0 \<Longrightarrow> VectorLength (normalize v) = 1"
  using VectorLength_nonneg [of v] by (simp add: normalize_def VectorLength_scale)

lemma VectorLength_triangle:
  "VectorLength (VectorAdd a b) \<le> VectorLength a + VectorLength b"
proof (cases a, cases b)
  fix ax ay az bx by' bz
  assume a: "a = (ax, ay, az)" and b: "b = (bx, by', bz)"
  define r where "r = sqrt ((ax + bx)\<^sup>2 + (ay + by')\<^sup>2)"
  define r1 where "r1 = sqrt (ax\<^sup>2 + ay\<^sup>2)"
  define r2 where "r2 = sqrt (bx\<^sup>2 + by'\<^sup>2)"
  have r: "r \<le> r1 + r2" "0 \<le> r" "0 \<le> r1" "0 \<le> r2"
    by (simp_all add: r_def r1_def r2_def real_sqrt_sum_squares_triangle_ineq)
  have "sqrt ((ax + bx)\<^sup>2 + (ay + by')\<^sup>2 + (az + bz)\<^sup>2) = sqrt (r\<^sup>2 + (az + bz)\<^sup>2)"
    by (simp add: r_def)
  also have "\<dots> \<le> sqrt ((r1 + r2)\<^sup>2 + (az + bz)\<^sup>2)"
    using r by (simp add: power_mono)
  also have "\<dots> \<le> sqrt (r1\<^sup>2 + az\<^sup>2) + sqrt (r2\<^sup>2 + bz\<^sup>2)"
    by (rule real_sqrt_sum_squares_triangle_ineq)
  also have "\<dots> = sqrt (ax\<^sup>2 + ay\<^sup>2 + az\<^sup>2) + sqrt (bx\<^sup>2 + by'\<^sup>2 + bz\<^sup>2)"
    by (simp add: r1_def r2_def)
  finally show ?thesis
    by (simp add: a b VectorAdd_def VectorLength_eq)
qed

lemma VectorLength_planar_bound:
  assumes "\<bar>jx\<bar> \<le> j" "\<bar>jy\<bar> \<le> j"
  shows "VectorLength (jx, jy, 0) \<le> sqrt 2 * j"
proof -
  from assms have j: "0 \<le> j" by linarith
  from assms have "jx\<^sup>2 \<le> j\<^sup>2" "jy\<^sup>2 \<le> j\<^sup>2"
    by (simp_all add: abs_le_square_iff [symmetric] j)
  then have "jx\<^sup>2 + jy\<^sup>2 \<le> 2 * j\<^sup>2" by simp
  then have "sqrt (jx\<^sup>2 + jy\<^sup>2) \<le> sqrt (2 * j\<^sup>2)" by simp
  also have "\<dots> = sqrt 2 * j" using j by (simp add: real_sqrt_mult)
  finally show ?thesis by (simp add: VectorLength_eq)
qed

lemma clamp_speed_bound:
  assumes "clamp_speed ms v = Inr v'" "0 \<le> ms"
  shows "VectorLength v' \<le> ms"
proof (cases "ms < VectorLength v")
  case False
  with assms show ?thesis by (simp add: clamp_speed_def Let_def)
next
  case True
  with assms(2) have nz: "VectorLength v \<noteq> 0" by simp
  from assms(1) True have "v' = VectorScale (normalize v) ms"
    by (simp add: clamp_speed_def Let_def VectorUnitize_normalize [OF nz])
  then show ?thesis
    using assms(2) by (simp add: VectorLength_scale VectorLength_normalize [OF nz])
qed

lemma random_uniform_range:
  assumes "0 \<le> rng w 0" "rng w 0 \<le> 1"
  shows "\<bar>fst (random_uniform (- j) j w)\<bar> \<le> \<bar>j\<bar>"
proof -
  have eq: "fst (random_uniform (- j) j w) = j * (2 * rng w 0 - 1)"
    by (simp add: random_uniform_def random_random_def algebra_simps)
  from assms have "\<bar>2 * rng w 0 - 1\<bar> \<le> 1" by (simp add: abs_le_iff)
  then have "\<bar>j\<bar> * \<bar>2 * rng w 0 - 1\<bar> \<le> \<bar>j\<bar> * 1"
    by (intro mult_left_mono) simp_all
  then show ?thesis by (simp add: eq abs_mult)
qed

lemma random_uniform_rng: "rng (snd (random_uniform a b w)) = (\<lambda>n. rng w (Suc n))"
  by (simp add: random_uniform_def random_random_def)

lemma example_parent_sense:
  "sense example_parent [example_parent] (Some example_surface) (Some 1) = example_parent_sensed"
  by (simp add: update_eval example_parent_def example_parent_sensed_def)

lemma example_parent_decide_slow:
  "decide example_parent_sensed [example_parent_sensed] slow_params example_world_high
     = Inr (example_parent_sensed\<lparr>velocity := (801 / 100000, 0, 0)\<rparr>, example_world)"
  by (simp add: update_eval example_parent_sensed_def slow_params_def example_world_high_def)

lemma accumulate_away_eq:
  assumes "position self = Some p" "\<forall>(j, d) \<in> set ns. position (agents ! j) \<noteq> None"
  shows "accumulate_away self agents ns start = Inr (away_sum p agents ns start)"
  using assms(2)
proof (induction ns arbitrary: start)
  case Nil
  then show ?case by (simp add: away_sum_def)
next
  case (Cons n ns)
  obtain j d where n: "n = (j, d)" by (cases n)
  from Cons.prems n obtain q where q: "position (agents ! j) = Some q" by auto
  from Cons.prems have rest: "\<forall>(j, d) \<in> set ns. position (agents ! j) \<noteq> None" by simp
  note IH = Cons.IH [OF rest]
  show ?case
  proof (cases "1 / 1000000000 < VectorLength (VectorSubtract p q)")
    case True
    then have nz: "VectorLength (VectorSubtract p q) \<noteq> 0" by simp
    from True n q assms(1) IH show ?thesis
      by (simp add: VectorCreate_def VectorUnitize_normalize [OF nz] away_sum_def)
  next
    case False
    with n q assms(1) IH show ?thesis
      by (simp add: VectorCreate_def away_sum_def)
  qed
qed

lemma example_parent_near_sense:
  "sense example_parent [example_parent, example_neighbor] (Some example_surface) (Some 1)
     = example_parent_near"
  by (simp add: update_eval example_parent_def example_neighbor_def example_parent_near_def
      example_parent_sensed_def)

lemma example_accumulate_away:
  "accumulate_away example_parent_near [example_parent_near, example_neighbor]
     (neighbors example_parent_near) zero3 = Inr (- (4 / 3), 0, 0)"
  by (simp add: vector_eval example_parent_near_def example_parent_sensed_def example_neighbor_def
      Agent_new_def)

text \<open>
  Claim C4, as the code has it. The clamp comes before the anti-stall jitter. For a living
  agent and \<open>max_speed \<ge> 0\<close> (samples of \<open>random.random()\<close> between 0 and 1): the velocity
  after the clamp, \<open>v4\<close>, has magnitude at most \<open>max_speed\<close>. When that magnitude is at least
  \<open>1e-4\<close> the jitter does not fire and the velocity after the decision stage is \<open>v4\<close>. When
  it is below \<open>1e-4\<close> the jitter adds \<open>(jx, jy, 0)\<close> with \<open>|jx|, |jy| \<le> |jitter|\<close>; the
  result has magnitude below \<open>1e-4 + sqrt 2 * |jitter|\<close>, which may exceed \<open>max_speed\<close>.
\<close>

theorem C4_speed_after_decide:
  assumes "is_alive self" "decide self agents P w = Inr (a', w')" "0 \<le> max_speed P"
    "0 \<le> rng w 0 \<and> rng w 0 \<le> 1" "0 \<le> rng w 1 \<and> rng w 1 \<le> 1"
  shows "\<exists>v4. VectorLength v4 \<le> max_speed P \<and>
           (if VectorLength v4 < 1 / 10000
            then (\<exists>jx jy. \<bar>jx\<bar> \<le> \<bar>jitter P\<bar> \<and> \<bar>jy\<bar> \<le> \<bar>jitter P\<bar> \<and>
                    velocity a' = VectorAdd v4 (jx, jy, 0)) \<and>
                 VectorLength (velocity a') < 1 / 10000 + sqrt 2 * \<bar>jitter P\<bar>
            else velocity a' = v4)"
proof -
  from assms(1,2) obtain v3 v4 where
    c: "clamp_speed (max_speed P) v3 = Inr v4"
    and j: "jitter_if_stuck (jitter P) v4 w = (velocity a', w')"
    by (auto simp: decide_def split: sum.splits prod.splits)
  from clamp_speed_bound [OF c assms(3)] have b: "VectorLength v4 \<le> max_speed P" .
  show ?thesis
  proof (cases "VectorLength v4 < 1 / 10000")
    case False
    with j have "velocity a' = v4" by (simp add: jitter_if_stuck_def)
    with b False show ?thesis by (intro exI [of _ v4]) simp
  next
    case True
    define jx where "jx = fst (random_uniform (- jitter P) (jitter P) w)"
    define w1 where "w1 = snd (random_uniform (- jitter P) (jitter P) w)"
    define jy where "jy = fst (random_uniform (- jitter P) (jitter P) w1)"
    from j True have v: "velocity a' = VectorAdd v4 (jx, jy, 0)"
      by (simp add: jitter_if_stuck_def jx_def jy_def w1_def split: prod.splits)
    have bx: "\<bar>jx\<bar> \<le> \<bar>jitter P\<bar>"
      unfolding jx_def using assms(4) by (intro random_uniform_range) simp_all
    have "rng w1 0 = rng w 1" by (simp add: w1_def random_uniform_rng)
    then have by': "\<bar>jy\<bar> \<le> \<bar>jitter P\<bar>"
      unfolding jy_def using assms(5) by (intro random_uniform_range) simp_all
    have "VectorLength (velocity a') \<le> VectorLength v4 + VectorLength (jx, jy, 0)"
      unfolding v by (rule VectorLength_triangle)
    also have "\<dots> < 1 / 10000 + sqrt 2 * \<bar>jitter P\<bar>"
      using True VectorLength_planar_bound [OF bx by'] by linarith
    finally have lt: "VectorLength (velocity a') < 1 / 10000 + sqrt 2 * \<bar>jitter P\<bar>" .
    from bx by' v have "\<exists>jx jy. \<bar>jx\<bar> \<le> \<bar>jitter P\<bar> \<and> \<bar>jy\<bar> \<le> \<bar>jitter P\<bar> \<and>
                    velocity a' = VectorAdd v4 (jx, jy, 0)" by blast
    with b True lt show ?thesis by (intro exI [of _ v4]) simp
  qed
qed

theorem C4_speed_after_decide_witness:
  "is_alive example_parent_sensed \<and>
   decide example_parent_sensed [example_parent_sensed] slow_params example_world_high
     = Inr (example_parent_sensed\<lparr>velocity := (801 / 100000, 0, 0)\<rparr>, example_world) \<and>
   0 \<le> max_speed slow_params \<and>
   (0 \<le> rng example_world_high 0 \<and> rng example_world_high 0 \<le> 1) \<and>
   (0 \<le> rng example_world_high 1 \<and> rng example_world_high 1 \<le> 1) \<and>
   (\<exists>v4. VectorLength v4 \<le> max_speed slow_params \<and>
      (if VectorLength v4 < 1 / 10000
       then (\<exists>jx jy. \<bar>jx\<bar> \<le> \<bar>jitter slow_params\<bar> \<and> \<bar>jy\<bar> \<le> \<bar>jitter slow_params\<bar> \<and>
               velocity (example_parent_sensed\<lparr>velocity := (801 / 100000, 0, 0)\<rparr>)
                 = VectorAdd v4 (jx, jy, 0)) \<and>
            VectorLength (velocity (example_parent_sensed\<lparr>velocity := (801 / 100000, 0, 0)\<rparr>))
              < 1 / 10000 + sqrt 2 * \<bar>jitter slow_params\<bar>
       else velocity (example_parent_sensed\<lparr>velocity := (801 / 100000, 0, 0)\<rparr>) = v4))"
proof -
  have h1: "is_alive example_parent_sensed" by (simp add: example_parent_sensed_def)
  have h3: "0 \<le> max_speed slow_params" by (simp add: slow_params_def default_params_def)
  have h4: "0 \<le> rng example_world_high 0 \<and> rng example_world_high 0 \<le> 1"
    and h5: "0 \<le> rng example_world_high 1 \<and> rng example_world_high 1 \<le> 1"
    by (simp_all add: example_world_high_def)
  from C4_speed_after_decide [OF h1 example_parent_decide_slow h3 h4 h5] h1
    example_parent_decide_slow h3 h4 h5
  show ?thesis by blast
qed

text \<open>
  Claim C4 as stated fails: with \<open>max_speed = 1e-5\<close> and the default \<open>jitter = 0.01\<close> the
  clamped velocity is below \<open>1e-4\<close>, the jitter fires, and with a first sample of \<open>0.9\<close> the
  velocity after the decision stage has magnitude \<open>0.00801 > max_speed\<close>.
\<close>

theorem C4_counterexample:
  "is_alive example_parent_sensed \<and>
   decide example_parent_sensed [example_parent_sensed] slow_params example_world_high
     = Inr (example_parent_sensed\<lparr>velocity := (801 / 100000, 0, 0)\<rparr>, example_world) \<and>
   max_speed slow_params
     < VectorLength (velocity (example_parent_sensed\<lparr>velocity := (801 / 100000, 0, 0)\<rparr>))"
  using example_parent_decide_slow
  by (simp add: example_parent_sensed_def slow_params_def default_params_def VectorLength_x)

text \<open>
  Claim C2, as the code has it. \<open>rs.VectorCreate(self.position, other.position)\<close> is
  \<open>self.position - other.position\<close>: the accumulated vector is the sum, over the neighbors
  further than \<open>1e-9\<close> from the agent, of
  \<open>normalize(position - other.position) * (1 / max(distance, 1e-6))\<close>, so it points away
  from the neighbors; for a non-empty neighbor list and a sum longer than \<open>1e-9\<close> the
  velocity is incremented by \<open>normalize(away) * separation_weight\<close>, and is left unchanged
  otherwise.
\<close>

theorem C2_separation_term:
  assumes "position self = Some p" "\<forall>(j, d) \<in> set (neighbors self). position (agents ! j) \<noteq> None"
  shows "accumulate_away self agents (neighbors self) zero3
           = Inr (away_sum p agents (neighbors self) zero3) \<and>
         separation self agents sw v =
           Inr (if neighbors self \<noteq> [] \<and>
                   VectorLength (away_sum p agents (neighbors self) zero3) > 1 / 1000000000
                then VectorAdd v (VectorScale (normalize (away_sum p agents (neighbors self) zero3)) sw)
                else v)"
proof -
  note acc = accumulate_away_eq [OF assms, of zero3]
  show ?thesis
  proof (cases "1 / 1000000000 < VectorLength (away_sum p agents (neighbors self) zero3)")
    case True
    then have nz: "VectorLength (away_sum p agents (neighbors self) zero3) \<noteq> 0" by simp
    from True acc show ?thesis
      by (simp add: separation_def VectorUnitize_normalize [OF nz])
  next
    case False
    with acc show ?thesis by (simp add: separation_def)
  qed
qed

theorem C2_separation_term_witness:
  "position example_parent_near = Some (0, 0, 0) \<and>
   neighbors example_parent_near = [(1, 3 / 4)] \<and>
   position ([example_parent_near, example_neighbor] ! 1) \<noteq> None \<and>
   accumulate_away example_parent_near [example_parent_near, example_neighbor]
     (neighbors example_parent_near) zero3
     = Inr (away_sum (0, 0, 0) [example_parent_near, example_neighbor]
              (neighbors example_parent_near) zero3) \<and>
   away_sum (0, 0, 0) [example_parent_near, example_neighbor] (neighbors example_parent_near) zero3
     = (- (4 / 3), 0, 0) \<and>
   separation example_parent_near [example_parent_near, example_neighbor] (3 / 25) (3 / 10, 0, 0)
     = Inr (9 / 50, 0, 0)"
proof -
  have h1: "position example_parent_near = Some (0, 0, 0)"
    and n: "neighbors example_parent_near = [(1, 3 / 4)]"
    and q: "position ([example_parent_near, example_neighbor] ! 1) \<noteq> None"
    by (simp_all add: example_parent_near_def example_parent_sensed_def example_neighbor_def
        Agent_new_def)
  from n q have h2: "\<forall>(j, d) \<in> set (neighbors example_parent_near).
      position ([example_parent_near, example_neighbor] ! j) \<noteq> None" by simp
  have a: "away_sum (0, 0, 0) [example_parent_near, example_neighbor]
      (neighbors example_parent_near) zero3 = (- (4 / 3), 0, 0)"
    by (simp add: away_sum_def normalize_def vector_eval example_parent_near_def
        example_parent_sensed_def example_neighbor_def Agent_new_def)
  have nrm: "normalize (- (4 / 3), 0, 0) = (- 1, 0, 0)"
    by (simp add: normalize_def vector_eval)
  from C2_separation_term [OF h1 h2, of "3 / 25" "(3 / 10, 0, 0)"] h1 n q a
  show ?thesis
    by (simp add: nrm VectorLength_x VectorAdd_def VectorScale_def)
qed

text \<open>
  Claim C2 as stated fails in the sign: an agent at the origin with one neighbor at
  \<open>(0.75, 0, 0)\<close> accumulates \<open>(-4/3, 0, 0)\<close>, where the sum over
  \<open>normalize(other.position - position)\<close> is \<open>(4/3, 0, 0)\<close>.
\<close>

theorem C2_counterexample:
  "neighbors example_parent_near \<noteq> [] \<and>
   accumulate_away example_parent_near [example_parent_near, example_neighbor]
     (neighbors example_parent_near) zero3 = Inr (- (4 / 3), 0, 0) \<and>
   spec_away (the (position example_parent_near))
     (map (\<lambda>(j, d). (the (position ([example_parent_near, example_neighbor] ! j)), d))
        (neighbors example_parent_near)) = (4 / 3, 0, 0)"
  using example_accumulate_away
  by (simp add: spec_away_def normalize_def vector_eval example_parent_near_def
      example_parent_sensed_def example_neighbor_def Agent_new_def)

section \<open>Claims about the population step\<close>

lemma example_pair_step:
  "step_loop (Some example_surface) near_params [0..<length [example_mover, example_neighbor]]
     ([example_mover, example_neighbor], [], [], example_world) =
   Inr ([example_mover_moved, example_neighbor_moved], [0, 1], [], example_world)"
  by (simp add: update_eval near_params_def run_params_def example_mover_def example_neighbor_def
      example_mover_moved_def example_neighbor_moved_def upt_rec)

lemma RunScript_population_alive:
  assumes run: "RunScript mt seed N reset surface P (component, w) = Inr (Some agents', w')"
    and mem: "a \<in> set agents'"
  shows "is_alive a"
proof -
  define start where "start = (if reset \<or> component = None then build_agents N surface (seed_everything mt seed w)
             else (the component, seed_everything mt seed w))"
  obtain agents w2 where st: "start = (agents, w2)" by (cases start)
  have st': "(if reset \<or> component = None then build_agents N surface (seed_everything mt seed w)
             else (the component, seed_everything mt seed w)) = (agents, w2)"
    using st unfolding start_def .
  from run obtain store' act' new' where
    loop: "step_loop surface P [0..<length agents] (agents, [], [], w2) = Inr (store', act', new', w')"
    and res: "agents' = map (\<lambda>i. store' ! i) act' @ new'"
    unfolding RunScript_def Let_def prod.case st'
    by (auto split: sum.splits)
  from mem res consider j where "j \<in> set act'" "a = store' ! j" | "a \<in> set new'" by auto
  then show ?thesis
  proof cases
    case 1
    with step_loop_active [OF loop] show ?thesis by auto
  next
    case 2
    from step_loop_new_agents [OF loop 2] obtain k pos vel where "a = Agent_new k pos vel"
      by auto
    then show ?thesis by (simp add: Agent_new_fields)
  qed
qed

lemma example_elder_step:
  "simulator_step [example_elder, example_neighbor] (Some example_surface) example_world =
    Inr ([\<lparr>agent_id = 1, position = Some (- (3 / 25), 0, 0),
              velocity = (- (3 / 25), 0, 0), age = 201, is_alive = False,
              path = [Some (0, 0, 0), Some (- (3 / 25), 0, 0)],
              uv = Some (0, 0), curvature_mean = 0, curvature_dir = (0, 0, 0),
              slope_vector = (3 / 1000, 1 / 250, 0),
              slope_magnitude = 1 / 200, neighbors = [(1, 3 / 4)]\<rparr>,
           \<lparr>agent_id = 2, position = Some (87 / 100, 0, 0),
              velocity = (3 / 25, 0, 0), age = 1, is_alive = True,
              path = [Some (3 / 4, 0, 0), Some (87 / 100, 0, 0)],
              uv = Some (1 / 4, 0), curvature_mean = 0, curvature_dir = (0, 0, 0),
              slope_vector = (3 / 1000, 1 / 250, 0),
              slope_magnitude = 1 / 200, neighbors = [(0, 87 / 100)]\<rparr>], example_world)"
  by (simp add: simulator_step_def update_eval example_elder_def example_neighbor_def upt_rec)

text \<open>
  Claim C1, as the code has it. The population loop updates the agents one after another,
  in place, in population order: the agent at position \<open>i\<close> ends the step as the result of
  its update on the list that holds the end-of-step state of every agent before it and the
  start-of-step state of itself and of every agent after it, and the neighbor list of a
  living agent is the one it senses against that list. So its sensing reads the already
  moved positions of the agents before it, and a snapshot only of those after it.
\<close>

theorem C1_sequential_sensing:
  assumes "step_loop surface P [0..<length agents] (agents, [], [], w) = Inr (store, active, new_agents, w')"
    "i < length agents"
  shows "(\<exists>wi sp wi'. update i (take i store @ drop i agents) surface P wi = Inr (store ! i, sp, wi')) \<and>
         (take i store @ drop i agents) ! i = agents ! i \<and>
         (is_alive (agents ! i) \<longrightarrow>
            neighbors (store ! i)
              = neighbors (sense (agents ! i) (take i store @ drop i agents) surface (vision_radius P)))"
proof -
  from step_loop_store [OF assms(1)] have len: "length store = length agents" by simp
  from step_loop_sequential [OF assms(1) _ assms(2)] obtain wi sp wi' where
    u: "update i (take i store @ drop i agents) surface P wi = Inr (store ! i, sp, wi')"
    by auto
  have at: "(take i store @ drop i agents) ! i = agents ! i"
    using assms(2) len by (simp add: nth_append)
  have "neighbors (store ! i)
      = neighbors (sense (agents ! i) (take i store @ drop i agents) surface (vision_radius P))"
    if "is_alive (agents ! i)"
  proof -
    from that at have "is_alive ((take i store @ drop i agents) ! i)" by simp
    from update_alive_fields(8) [OF this u] at show ?thesis by simp
  qed
  with u at show ?thesis by blast
qed

theorem C1_sequential_sensing_witness:
  "step_loop (Some example_surface) near_params [0..<length [example_mover, example_neighbor]]
     ([example_mover, example_neighbor], [], [], example_world) =
     Inr ([example_mover_moved, example_neighbor_moved], [0, 1], [], example_world) \<and>
   1 < length [example_mover, example_neighbor] \<and>
   (\<exists>wi sp wi'.
      update 1 (take 1 [example_mover_moved, example_neighbor_moved] @ drop 1 [example_mover, example_neighbor])
        (Some example_surface) near_params wi
      = Inr ([example_mover_moved, example_neighbor_moved] ! 1, sp, wi')) \<and>
   take 1 [example_mover_moved, example_neighbor_moved] @ drop 1 [example_mover, example_neighbor]
     = [example_mover_moved, example_neighbor] \<and>
   is_alive ([example_mover, example_neighbor] ! 1) \<and>
   neighbors ([example_mover_moved, example_neighbor_moved] ! 1)
     = neighbors (sense ([example_mover, example_neighbor] ! 1)
         (take 1 [example_mover_moved, example_neighbor_moved] @ drop 1 [example_mover, example_neighbor])
         (Some example_surface) (vision_radius near_params))"
proof -
  have len: "1 < length [example_mover, example_neighbor]" by simp
  have al: "is_alive ([example_mover, example_neighbor] ! 1)"
    by (simp add: example_neighbor_def Agent_new_def)
  from C1_sequential_sensing [OF example_pair_step len] al example_pair_step
  show ?thesis by simp
qed

text \<open>
  Claim C1 as stated fails: with vision radius \<open>0.5\<close> the second agent is \<open>0.75\<close> from the
  first at the start of the step, and sensing against the positions at the start of the
  step gives it no neighbor; in the step the first agent moves first, and the second
  records it as a neighbor at \<open>0.432\<close>, its distance to the updated position.
\<close>

theorem C1_counterexample:
  "(case step_loop (Some example_surface) near_params [0..<length [example_mover, example_neighbor]]
          ([example_mover, example_neighbor], [], [], example_world) of
      Inl e \<Rightarrow> False
    | Inr (store, active, new_agents, w') \<Rightarrow>
        neighbors (store ! 1) = [(0, 54 / 125)] \<and>
        Distance (position ([example_mover, example_neighbor] ! 1)) (position (store ! 0))
          = Inr (54 / 125) \<and>
        position (store ! 0) \<noteq> position ([example_mover, example_neighbor] ! 0)) \<and>
   Distance (position ([example_mover, example_neighbor] ! 1))
     (position ([example_mover, example_neighbor] ! 0)) = Inr (3 / 4) \<and>
   neighbors (sense ([example_mover, example_neighbor] ! 1) [example_mover, example_neighbor]
      (Some example_surface) (vision_radius near_params)) = []"
  unfolding example_pair_step
  by (simp add: update_eval near_params_def run_params_def example_mover_def example_neighbor_def
      example_mover_moved_def example_neighbor_moved_def)

text \<open>
  Claim C5 on the step loop of agent_simulator.py, at a concrete input: the first agent
  (age 200, alive) dies in the step; the population after the step, \<open>agents + new_agents\<close>,
  still holds it, dead; and in the next step the second agent records the dead agent as a
  neighbor. (\<open>RunScript\<close> keeps only living agents: \<open>RunScript_population_alive\<close>.)
\<close>

theorem C5_simulator_keeps_dead:
  "is_alive ([example_elder, example_neighbor] ! 0) \<and>
   (case simulator_step [example_elder, example_neighbor] (Some example_surface) example_world of
      Inl e \<Rightarrow> False
    | Inr (agents1, w1) \<Rightarrow>
        length agents1 = 2 \<and> agent_id (agents1 ! 0) = agent_id example_elder \<and>
        \<not> is_alive (agents1 ! 0) \<and>
        (case simulator_step agents1 (Some example_surface) w1 of
           Inl e \<Rightarrow> False
         | Inr (agents2, w2) \<Rightarrow>
             length agents2 = 2 \<and> \<not> is_alive (agents2 ! 0) \<and> is_alive (agents2 ! 1) \<and>
             neighbors (agents2 ! 1) = [(0, 99 / 100)]))"
  unfolding example_elder_step
  by (simp add: simulator_step_def update_eval example_elder_def upt_rec)

section \<open>Identifiers do not influence a run\<close>

lemma same_but_id_refl: "same_but_id a a"
  by (simp add: same_but_id_def)

lemma same_but_id_relabel: "same_but_id a (a\<lparr>agent_id := k\<rparr>)"
  by (simp add: same_but_id_def)

lemma same_but_id_fields:
  assumes "same_but_id a b"
  shows "position b = position a" "velocity b = velocity a" "age b = age a"
    "is_alive b = is_alive a" "path b = path a" "uv b = uv a"
    "curvature_mean b = curvature_mean a" "curvature_dir b = curvature_dir a"
    "slope_vector b = slope_vector a" "slope_magnitude b = slope_magnitude a"
    "neighbors b = neighbors a"
proof -
  from assms have b: "b = a\<lparr>agent_id := agent_id b\<rparr>" by (simp add: same_but_id_def)
  show "position b = position a" by (subst b) simp
  show "velocity b = velocity a" by (subst b) simp
  show "age b = age a" by (subst b) simp
  show "is_alive b = is_alive a" by (subst b) simp
  show "path b = path a" by (subst b) simp
  show "uv b = uv a" by (subst b) simp
  show "curvature_mean b = curvature_mean a" by (subst b) simp
  show "curvature_dir b = curvature_dir a" by (subst b) simp
  show "slope_vector b = slope_vector a" by (subst b) simp
  show "slope_magnitude b = slope_magnitude a" by (subst b) simp
  show "neighbors b = neighbors a" by (subst b) simp
qed

lemma same_but_id_Agent_new: "same_but_id (Agent_new j pos vel) (Agent_new k pos vel)"
  by (simp add: same_but_id_def Agent_new_def)

lemma sense_geometry_relabel:
  "sense_geometry (a\<lparr>agent_id := k\<rparr>) s = (sense_geometry a s)\<lparr>agent_id := k\<rparr>"
  by (simp add: sense_geometry_def Let_def split: option.splits prod.splits)

lemma scan_neighbors_rel:
  assumes "position s1 = position s2"
    "list_all2 (\<lambda>(j, a) (k, b). j = k \<and> position a = position b \<and>
        (agent_id a = agent_id s1 \<longleftrightarrow> agent_id b = agent_id s2)) jas1 jas2"
  shows "scan_neighbors s1 r jas1 = scan_neighbors s2 r jas2"
  using assms(2)
proof (induction rule: list_all2_induct)
  case Nil
  then show ?case by simp
next
  case (Cons x xs y ys)
  obtain j a where x: "x = (j, a)" by (cases x)
  obtain k b where y: "y = (k, b)" by (cases y)
  from Cons.hyps(1) x y have "j = k" "position a = position b"
    "agent_id a = agent_id s1 \<longleftrightarrow> agent_id b = agent_id s2" by auto
  with Cons.IH x y assms(1) show ?case by (simp split: sum.splits)
qed

lemma enumerate_rel:
  assumes "list_all2 same_but_id as bs"
    "\<forall>j < length as. (agent_id (as ! j) = x \<longleftrightarrow> agent_id (bs ! j) = y)"
  shows "list_all2 (\<lambda>(j, a) (k, b). j = k \<and> position a = position b \<and>
        (agent_id a = x \<longleftrightarrow> agent_id b = y)) (enumerate 0 as) (enumerate 0 bs)"
proof -
  from assms(1) have len: "length as = length bs" by (rule list_all2_lengthD)
  show ?thesis
    unfolding list_all2_conv_all_nth
  proof (intro conjI allI impI)
    show "length (enumerate 0 as) = length (enumerate 0 bs)" using len by simp
  next
    fix i assume "i < length (enumerate 0 as)"
    then have i: "i < length as" by simp
    from list_all2_nthD [OF assms(1) i] have "position (bs ! i) = position (as ! i)"
      by (rule same_but_id_fields)
    with i len assms(2) show "(case enumerate 0 as ! i of (j, a) \<Rightarrow> \<lambda>(k, b). j = k \<and> position a = position b \<and>
        (agent_id a = x \<longleftrightarrow> agent_id b = y)) (enumerate 0 bs ! i)"
      by (simp add: nth_enumerate_eq)
  qed
qed

lemma sense_rel:
  assumes "same_but_id a b" "list_all2 same_but_id as bs"
    "\<forall>j < length as. (agent_id (as ! j) = agent_id a \<longleftrightarrow> agent_id (bs ! j) = agent_id b)"
  shows "same_but_id (sense a as s vr) (sense b bs s vr)"
proof -
  from assms(1) have b: "b = a\<lparr>agent_id := agent_id b\<rparr>" by (simp add: same_but_id_def)
  define a2 where "a2 = (sense_geometry a s)\<lparr>neighbors := []\<rparr>"
  define b2 where "b2 = (sense_geometry b s)\<lparr>neighbors := []\<rparr>"
  have b2: "b2 = a2\<lparr>agent_id := agent_id b\<rparr>"
    unfolding a2_def b2_def by (subst b) (simp add: sense_geometry_relabel)
  have ida: "agent_id a2 = agent_id a" and idb: "agent_id b2 = agent_id b"
    and pos: "position a2 = position b2"
    using same_but_id_fields(1) [OF assms(1)]
    by (simp_all add: a2_def b2_def sense_geometry_frame)
  show ?thesis
  proof (cases vr)
    case None
    then show ?thesis
      by (simp add: sense_def Let_def a2_def [symmetric] b2_def [symmetric] b2 same_but_id_def)
  next
    case (Some r)
    from enumerate_rel [OF assms(2,3)] ida idb
    have "list_all2 (\<lambda>(j, a) (k, b). j = k \<and> position a = position b \<and>
        (agent_id a = agent_id a2 \<longleftrightarrow> agent_id b = agent_id b2)) (enumerate 0 as) (enumerate 0 bs)"
      by simp
    from scan_neighbors_rel [OF pos this]
    have "scan_neighbors a2 r (enumerate 0 as) = scan_neighbors b2 r (enumerate 0 bs)" .
    then show ?thesis
      using Some
      by (simp add: sense_def Let_def a2_def [symmetric] b2_def [symmetric] same_but_id_def)
        (simp add: b2)
  qed
qed

lemma accumulate_away_cong:
  assumes "position a = position b" "\<forall>(j, d) \<in> set ns. position (as ! j) = position (bs ! j)"
  shows "accumulate_away a as ns acc = accumulate_away b bs ns acc"
  using assms(2)
proof (induction ns arbitrary: acc)
  case Nil
  then show ?case by simp
next
  case (Cons n ns)
  obtain j d where n: "n = (j, d)" by (cases n)
  from Cons.prems n have "position (as ! j) = position (bs ! j)"
    and "\<forall>(j, d) \<in> set ns. position (as ! j) = position (bs ! j)" by auto
  with Cons.IH n assms(1) show ?case
    by (simp split: sum.splits option.splits)
qed

lemma jitter_if_stuck_rel:
  assumes "rng w1 = rng w2"
  shows "fst (jitter_if_stuck j v w1) = fst (jitter_if_stuck j v w2)"
    "rng (snd (jitter_if_stuck j v w1)) = rng (snd (jitter_if_stuck j v w2))"
    "uuids (snd (jitter_if_stuck j v w1)) = uuids w1"
  using assms
  by (simp_all add: jitter_if_stuck_def random_uniform_def random_random_def)

lemma decide_rel:
  assumes R: "same_but_id a b"
    and pos: "\<forall>(j, d) \<in> set (neighbors a). position (as ! j) = position (bs ! j)"
    and rng: "rng w1 = rng w2"
  shows "rel_sum (=) (\<lambda>(a', w1') (b', w2'). same_but_id a' b' \<and> rng w1' = rng w2')
           (decide a as P w1) (decide b bs P w2)"
proof (cases "is_alive a")
  case False
  with R rng same_but_id_fields(4) [OF R] show ?thesis by (simp add: decide_def)
next
  case True
  note f = same_but_id_fields [OF R]
  from R have b: "b = a\<lparr>agent_id := agent_id b\<rparr>" by (simp add: same_but_id_def)
  have c1: "curvature_alignment b (alignment_weight P) (slope_resistance b (max_slope P))
      = curvature_alignment a (alignment_weight P) (slope_resistance a (max_slope P))"
    by (simp add: curvature_alignment_def slope_resistance_def f)
  have acc: "accumulate_away b bs (neighbors a) zero3 = accumulate_away a as (neighbors a) zero3"
    using accumulate_away_cong [OF f(1) [symmetric] pos, of zero3] by simp
  have c2: "separation b bs sw v = separation a as sw v" for sw v
    by (simp add: separation_def f acc)
  show ?thesis
  proof (cases "curvature_alignment a (alignment_weight P) (slope_resistance a (max_slope P))")
    case (Inl e)
    with True f(4) c1 show ?thesis by (simp add: decide_def)
  next
    case v2: (Inr v2)
    show ?thesis
    proof (cases "separation a as (separation_weight P) v2")
      case (Inl e)
      with True f(4) c1 c2 v2 show ?thesis by (simp add: decide_def)
    next
      case v3: (Inr v3)
      show ?thesis
      proof (cases "clamp_speed (max_speed P) v3")
        case (Inl e)
        with True f(4) c1 c2 v2 v3 show ?thesis by (simp add: decide_def)
      next
        case v4: (Inr v4)
        have da: "decide a as P w1 = Inr (a\<lparr>velocity := fst (jitter_if_stuck (jitter P) v4 w1)\<rparr>,
            snd (jitter_if_stuck (jitter P) v4 w1))"
          using True v2 v3 v4 by (simp add: decide_def split: prod.splits)
        have db: "decide b bs P w2 = Inr (b\<lparr>velocity := fst (jitter_if_stuck (jitter P) v4 w2)\<rparr>,
            snd (jitter_if_stuck (jitter P) v4 w2))"
          using True f(4) c1 c2 v2 v3 v4 by (simp add: decide_def split: prod.splits)
        have "same_but_id (a\<lparr>velocity := fst (jitter_if_stuck (jitter P) v4 w1)\<rparr>)
            (b\<lparr>velocity := fst (jitter_if_stuck (jitter P) v4 w2)\<rparr>)"
          unfolding jitter_if_stuck_rel(1) [OF rng]
          by (subst b) (simp add: same_but_id_def)
        with da db jitter_if_stuck_rel(2) [OF rng] show ?thesis by simp
      qed
    qed
  qed
qed

lemma move_rel:
  assumes "same_but_id a b"
  shows "rel_sum (=) same_but_id (move a s) (move b s)"
proof -
  from assms have b: "b = a\<lparr>agent_id := agent_id b\<rparr>" by (simp add: same_but_id_def)
  have "move (a\<lparr>agent_id := k\<rparr>) s = map_sum id (\<lambda>x. x\<lparr>agent_id := k\<rparr>) (move a s)" for k
    by (simp add: move_def Let_def split: sum.splits option.splits prod.splits)
  then have "move b s = map_sum id (\<lambda>x. x\<lparr>agent_id := agent_id b\<rparr>) (move a s)"
    by (subst b) simp
  then show ?thesis
    by (cases "move a s") (simp_all add: same_but_id_def)
qed

lemma spawn_agent_near_rel:
  assumes "position a = position b" "rng w1 = rng w2"
  shows "rel_option same_but_id (fst (spawn_agent_near a s off w1)) (fst (spawn_agent_near b s off w2))"
    "rng (snd (spawn_agent_near a s off w1)) = rng (snd (spawn_agent_near b s off w2))"
  using assms
  by (auto simp: spawn_agent_near_def Agent_init_eq PointAdd_def Let_def random_uniform_def
      random_random_def same_but_id_Agent_new split: option.splits prod.splits sum.splits)

lemma same_but_id_age:
  "same_but_id a b \<Longrightarrow> same_but_id (a\<lparr>age := n\<rparr>) (b\<lparr>age := n\<rparr>)"
  "same_but_id a b \<Longrightarrow> same_but_id (a\<lparr>is_alive := x\<rparr>) (b\<lparr>is_alive := x\<rparr>)"
  by (simp_all add: same_but_id_def) (metis agent.update_convs(1,4) agent.surjective, metis agent.update_convs(1,5) agent.surjective)

lemma error_eq: "(e :: error) = e'"
  by (cases e, cases e') simp

lemma spawn_prob_cong:
  "same_but_id a b \<Longrightarrow> spawn_prob P b = spawn_prob P a"
  by (simp add: spawn_prob_def same_but_id_fields)

lemma update_rel:
  assumes L: "list_all2 same_but_id as bs" and i: "i < length as"
    and ids: "\<forall>j < length as. (agent_id (as ! j) = agent_id (as ! i) \<longleftrightarrow>
                                  agent_id (bs ! j) = agent_id (bs ! i))"
    and rng: "rng w1 = rng w2"
  shows "rel_sum (=) (\<lambda>(a', sp1, w1') (b', sp2, w2').
            same_but_id a' b' \<and> rel_option same_but_id sp1 sp2 \<and> rng w1' = rng w2')
          (update i as s P w1) (update i bs s P w2)"
proof -
  from L have len: "length as = length bs" by (rule list_all2_lengthD)
  from list_all2_nthD [OF L i] have R: "same_but_id (as ! i) (bs ! i)" .
  note f = same_but_id_fields [OF R]
  show ?thesis
  proof (cases "is_alive (as ! i)")
    case False
    with R rng f(4) show ?thesis by (simp add: update_def)
  next
    case True
    then have Tb: "is_alive (bs ! i)" using f(4) by simp
    define a1 where "a1 = sense (as ! i) as s (vision_radius P)"
    define b1 where "b1 = sense (bs ! i) bs s (vision_radius P)"
    have R1: "same_but_id a1 b1"
      unfolding a1_def b1_def by (rule sense_rel [OF R L ids])
    have pos: "\<forall>(j, d) \<in> set (neighbors a1). position (as[i := a1] ! j) = position (bs[i := b1] ! j)"
    proof -
      have "position (as[i := a1] ! j) = position (bs[i := b1] ! j)"
        if "(j, d) \<in> set (neighbors a1)" for j d
      proof -
        from sense_neighbors_valid [OF that [unfolded a1_def]] have j: "j < length as" by simp
        from list_all2_nthD [OF L j] have "position (bs ! j) = position (as ! j)"
          by (rule same_but_id_fields)
        with j i len same_but_id_fields(1) [OF R1] show ?thesis
          by (simp add: nth_list_update)
      qed
      then show ?thesis by blast
    qed
    note D = decide_rel [OF R1 pos rng, of P]
    show ?thesis
    proof (cases "decide a1 (as[i := a1]) P w1")
      case (Inl e)
      with D obtain e' where "decide b1 (bs[i := b1]) P w2 = Inl e'"
        by (cases "decide b1 (bs[i := b1]) P w2") auto
      with Inl True Tb show ?thesis
        by (simp add: update_def Let_def a1_def [symmetric] b1_def [symmetric] error_eq)
    next
      case (Inr r1)
      obtain a2 w1' where r1: "r1 = (a2, w1')" by (cases r1)
      from D Inr r1 obtain b2 w2' where
        db: "decide b1 (bs[i := b1]) P w2 = Inr (b2, w2')"
        and R2: "same_but_id a2 b2" and rng': "rng w1' = rng w2'"
        by (cases "decide b1 (bs[i := b1]) P w2") auto
      note M = move_rel [OF R2, of s]
      show ?thesis
      proof (cases "move a2 s")
        case (Inl e)
        with M obtain e' where "move b2 s = Inl e'" by (cases "move b2 s") auto
        with Inl Inr r1 db True Tb show ?thesis
          by (simp add: update_def Let_def a1_def [symmetric] b1_def [symmetric] error_eq)
      next
        case a3: (Inr a3)
        with M obtain b3 where mb: "move b2 s = Inr b3" and R3: "same_but_id a3 b3"
          by (cases "move b2 s") auto
        define a4 where "a4 = a3\<lparr>age := age a3 + 1\<rparr>"
        define b4 where "b4 = b3\<lparr>age := age b3 + 1\<rparr>"
        have R4: "same_but_id a4 b4"
          unfolding a4_def b4_def same_but_id_fields(3) [OF R3] by (rule same_but_id_age(1) [OF R3])
        note f4 = same_but_id_fields [OF R4]
        have ua: "update i as s P w1 =
            (if age a4 > max_age P \<or> slope_magnitude a4 > slope_kill P
             then Inr (a4\<lparr>is_alive := False\<rparr>, None, w1')
             else if rng w1' 0 < spawn_prob P a4
               then Inr (a4, fst (spawn_agent_near a4 s 0.2 (snd (random_random w1'))),
                         snd (spawn_agent_near a4 s 0.2 (snd (random_random w1'))))
               else Inr (a4, None, snd (random_random w1')))"
          using True Inr r1 a3
          by (simp add: update_def Let_def a1_def [symmetric] a4_def [symmetric] random_random_def
              split: prod.splits)
        have ub: "update i bs s P w2 =
            (if age b4 > max_age P \<or> slope_magnitude b4 > slope_kill P
             then Inr (b4\<lparr>is_alive := False\<rparr>, None, w2')
             else if rng w2' 0 < spawn_prob P b4
               then Inr (b4, fst (spawn_agent_near b4 s 0.2 (snd (random_random w2'))),
                         snd (spawn_agent_near b4 s 0.2 (snd (random_random w2'))))
               else Inr (b4, None, snd (random_random w2')))"
          using Tb db mb
          by (simp add: update_def Let_def b1_def [symmetric] b4_def [symmetric] random_random_def
              split: prod.splits)
        have rr: "rng (snd (random_random w1')) = rng (snd (random_random w2'))"
          using rng' by (simp add: random_random_def)
        note S = spawn_agent_near_rel [OF f4(1) [symmetric] rr, of s "0.2"]
        show ?thesis
          unfolding ua ub
          using R4 f4(3,10) rng' rr S spawn_prob_cong [OF R4, of P] same_but_id_age(2) [OF R4, of False]
          by (simp add: case_prod_beta)
      qed
    qed
  qed
qed

lemma fresh_ids_cong: "uuids w' = uuids w \<Longrightarrow> fresh_ids ids w' = fresh_ids ids w"
  by (simp add: fresh_ids_def)

lemma fresh_ids_issue:
  assumes "fresh_ids ids w" "uuids w' = (\<lambda>n. uuids w (Suc n))"
  shows "fresh_ids (ids @ [uuids w 0]) w'"
proof -
  from assms(1) have d: "distinct ids" and i: "inj (uuids w)"
    and disj: "set ids \<inter> range (uuids w) = {}"
    by (simp_all add: fresh_ids_def)
  have i': "inj (uuids w')"
    unfolding assms(2) using i by (auto simp: inj_on_def)
  have new: "uuids w 0 \<notin> set ids" using disj by blast
  have old: "uuids w' n \<notin> set ids" for n
    unfolding assms(2) using disj by blast
  have ne: "uuids w' n \<noteq> uuids w 0" for n
    unfolding assms(2) using injD [OF i, of "Suc n" 0] by auto
  have "set (ids @ [uuids w 0]) \<inter> range (uuids w') = {}"
  proof (rule ccontr)
    assume "set (ids @ [uuids w 0]) \<inter> range (uuids w') \<noteq> {}"
    then obtain x n where "x \<in> set (ids @ [uuids w 0])" "x = uuids w' n" by blast
    with old [of n] ne [of n] show False by simp
  qed
  moreover have "distinct (ids @ [uuids w 0])" using d new by simp
  ultimately show ?thesis using i' unfolding fresh_ids_def by blast
qed

lemma fresh_ids_append_swap:
  "fresh_ids (xs @ ys @ [k]) w = fresh_ids ((xs @ ys) @ [k]) w"
  by simp

lemma update_ids:
  assumes "update i agents s P w = Inr (a', sp, w')"
  shows "agent_id a' = agent_id (agents ! i)"
    "case sp of None \<Rightarrow> uuids w' = uuids w
     | Some c \<Rightarrow> agent_id c = uuids w 0 \<and> uuids w' = (\<lambda>n. uuids w (Suc n))"
proof -
  show "agent_id a' = agent_id (agents ! i)"
  proof (cases "is_alive (agents ! i)")
    case True
    from update_alive_fields(1) [OF True assms] show ?thesis .
  next
    case False
    from update_dead [OF False, of s P w] assms show ?thesis by simp
  qed
  show "case sp of None \<Rightarrow> uuids w' = uuids w
     | Some c \<Rightarrow> agent_id c = uuids w 0 \<and> uuids w' = (\<lambda>n. uuids w (Suc n))"
  proof (cases "is_alive (agents ! i)")
    case False
    from update_dead [OF False, of s P w] assms show ?thesis by simp
  next
    case True
    from True assms show ?thesis
    proof (rule update_alive_elim)
      fix self2 w2 self3
      assume d: "decide (sense (agents ! i) agents s (vision_radius P))
           (agents[i := sense (agents ! i) agents s (vision_radius P)]) P w = Inr (self2, w2)"
        and r: "(max_age P < age self3 + 1 \<or> slope_kill P < slope_magnitude self3) \<and>
           a' = self3\<lparr>age := age self3 + 1, is_alive := False\<rparr> \<and> sp = None \<and> w' = w2
         \<or> \<not> (max_age P < age self3 + 1 \<or> slope_kill P < slope_magnitude self3) \<and>
           a' = self3\<lparr>age := age self3 + 1\<rparr> \<and>
           (if rng w2 0 < spawn_prob P (self3\<lparr>age := age self3 + 1\<rparr>)
            then (sp, w') = spawn_agent_near (self3\<lparr>age := age self3 + 1\<rparr>) s 0.2 (snd (random_random w2))
            else sp = None \<and> w' = snd (random_random w2))"
      have u2: "uuids w2 = uuids w" by (rule decide_uuids [OF d])
      then have u3: "uuids (snd (random_random w2)) = uuids w" by simp
      from r consider "sp = None" "w' = w2" | "sp = None" "w' = snd (random_random w2)"
        | "spawn_agent_near (self3\<lparr>age := age self3 + 1\<rparr>) s 0.2 (snd (random_random w2)) = (sp, w')"
        by (auto split: if_splits)
      then show ?thesis
      proof cases
        case 1
        with u2 show ?thesis by simp
      next
        case 2
        with u3 show ?thesis by simp
      next
        case 3
        show ?thesis
        proof (cases sp)
          case None
          with spawn_agent_near_None(2) [OF 3 [unfolded None]] u3 show ?thesis by simp
        next
          case (Some c)
          from spawn_agent_near_Some(1,4) [OF 3 [unfolded Some]] u3 Some show ?thesis
            by (auto simp: Agent_new_fields)
        qed
      qed
    qed
  qed
qed

lemma step_loop_ids:
  assumes "step_loop s P js (store, act, new, w) = Inr (store', act', new', w')"
    "fresh_ids (map agent_id (store @ new)) w"
  shows "fresh_ids (map agent_id (store' @ new')) w' \<and> map agent_id store' = map agent_id store"
  using assms
proof (induction js arbitrary: store act new w)
  case Nil
  then show ?case by simp
next
  case (Cons i js)
  from Cons.prems(1) obtain self' sp w1 where
    u: "update i store s P w = Inr (self', sp, w1)"
    and rest: "step_loop s P js
        (store[i := self'], (if is_alive self' then act @ [i] else act),
         (case sp of None \<Rightarrow> new | Some c \<Rightarrow> new @ [c]), w1) = Inr (store', act', new', w')"
    by (auto split: sum.splits)
  note ui = update_ids [OF u]
  have st: "map agent_id (store[i := self']) = map agent_id store"
  proof (cases "i < length store")
    case True
    with ui(1) show ?thesis by (simp add: map_update list_update_same_conv)
  next
    case False
    then show ?thesis by (simp add: list_update_beyond)
  qed
  have "fresh_ids (map agent_id (store[i := self'] @ (case sp of None \<Rightarrow> new | Some c \<Rightarrow> new @ [c]))) w1"
  proof (cases sp)
    case None
    with ui(2) have "uuids w1 = uuids w" by simp
    from fresh_ids_cong [OF this, of "map agent_id (store @ new)"] Cons.prems(2)
    have "fresh_ids (map agent_id (store @ new)) w1" by simp
    with None st show ?thesis by simp
  next
    case (Some c)
    with ui(2) have c: "agent_id c = uuids w 0" and w1: "uuids w1 = (\<lambda>n. uuids w (Suc n))"
      by simp_all
    from fresh_ids_issue [OF Cons.prems(2) w1]
    have "fresh_ids (map agent_id (store @ new) @ [uuids w 0]) w1" .
    with Some c st show ?thesis by simp
  qed
  from Cons.IH [OF rest this]
  have "fresh_ids (map agent_id (store' @ new')) w'"
    and "map agent_id store' = map agent_id (store[i := self'])" by blast+
  with st show ?case by simp
qed

lemma step_loop_active_distinct:
  assumes "step_loop s P js (store, act, new, w) = Inr (store', act', new', w')"
    "distinct js" "distinct act" "set act \<inter> set js = {}"
  shows "distinct act'"
  using assms
proof (induction js arbitrary: store act new w)
  case Nil
  then show ?case by simp
next
  case (Cons i js)
  from Cons.prems(1) obtain self' sp w1 where
    rest: "step_loop s P js
        (store[i := self'], (if is_alive self' then act @ [i] else act),
         (case sp of None \<Rightarrow> new | Some c \<Rightarrow> new @ [c]), w1) = Inr (store', act', new', w')"
    by (auto split: sum.splits)
  from Cons.prems(2,3,4) have "distinct js" "distinct (if is_alive self' then act @ [i] else act)"
    "set (if is_alive self' then act @ [i] else act) \<inter> set js = {}"
    by auto
  from Cons.IH [OF rest this] show ?case .
qed

lemma random_uniform_rel:
  assumes "rng w1 = rng w2"
  shows "fst (random_uniform a b w1) = fst (random_uniform a b w2)"
    "rng (snd (random_uniform a b w1)) = rng (snd (random_uniform a b w2))"
  using assms by (simp_all add: random_uniform_def random_random_def)

lemma generate_random_point_uuids:
  "uuids (snd (generate_random_point_on_surface s w)) = uuids w"
  by (simp add: generate_random_point_on_surface_def random_uniform_def random_random_def
      split: option.splits prod.splits)

lemma generate_random_point_rel:
  assumes "rng w1 = rng w2"
  shows "fst (generate_random_point_on_surface s w1) = fst (generate_random_point_on_surface s w2)"
    "rng (snd (generate_random_point_on_surface s w1)) = rng (snd (generate_random_point_on_surface s w2))"
  using assms
  by (simp_all add: generate_random_point_on_surface_def random_uniform_def random_random_def
      split: option.splits prod.splits)

lemma build_loop_Suc:
  "build_loop (Suc n) s agents w =
     (case fst (generate_random_point_on_surface s w) of
        None \<Rightarrow> build_loop n s agents (snd (generate_random_point_on_surface s w))
      | Some p \<Rightarrow>
          build_loop n s
            (agents @ [Agent_new (uuids w 0) (Some p)
               (fst (random_uniform (- 0.05) 0.05 (snd (generate_random_point_on_surface s w))),
                fst (random_uniform (- 0.05) 0.05
                  (snd (random_uniform (- 0.05) 0.05 (snd (generate_random_point_on_surface s w))))), 0)])
            ((snd (random_uniform (- 0.05) 0.05
                  (snd (random_uniform (- 0.05) 0.05 (snd (generate_random_point_on_surface s w))))))
              \<lparr>uuids := (\<lambda>n. uuids w (Suc n))\<rparr>))"
  by (simp add: Agent_init_eq generate_random_point_uuids case_prod_beta split: option.splits)

lemma build_loop_ids:
  assumes "fresh_ids (map agent_id agents) w"
  shows "fresh_ids (map agent_id (fst (build_loop n s agents w))) (snd (build_loop n s agents w))"
  using assms
proof (induction n arbitrary: agents w)
  case 0
  then show ?case by simp
next
  case (Suc n)
  define g where "g = generate_random_point_on_surface s w"
  show ?case
  proof (cases "fst g")
    case None
    have "uuids (snd g) = uuids w" by (simp add: g_def generate_random_point_uuids)
    from fresh_ids_cong [OF this, of "map agent_id agents"] Suc.prems
    have "fresh_ids (map agent_id agents) (snd g)" by simp
    from Suc.IH [OF this] None show ?thesis
      by (simp only: build_loop_Suc g_def [symmetric] option.case)
  next
    case (Some p)
    define w4 where "w4 = (snd (random_uniform (- 0.05) 0.05
                  (snd (random_uniform (- 0.05) 0.05 (snd g)))))\<lparr>uuids := (\<lambda>n. uuids w (Suc n))\<rparr>"
    define a where "a = Agent_new (uuids w 0) (Some p)
               (fst (random_uniform (- 0.05) 0.05 (snd g)),
                fst (random_uniform (- 0.05) 0.05 (snd (random_uniform (- 0.05) 0.05 (snd g)))), 0)"
    have "uuids w4 = (\<lambda>n. uuids w (Suc n))" by (simp add: w4_def)
    from fresh_ids_issue [OF Suc.prems this]
    have "fresh_ids (map agent_id (agents @ [a])) w4" by (simp add: a_def Agent_new_fields)
    from Suc.IH [OF this] Some show ?thesis
      by (simp only: build_loop_Suc g_def [symmetric] option.case a_def [symmetric] w4_def [symmetric])
  qed
qed

lemma build_loop_rel:
  assumes "list_all2 same_but_id as1 as2" "rng w1 = rng w2"
  shows "list_all2 same_but_id (fst (build_loop n s as1 w1)) (fst (build_loop n s as2 w2)) \<and>
         rng (snd (build_loop n s as1 w1)) = rng (snd (build_loop n s as2 w2))"
  using assms
proof (induction n arbitrary: as1 as2 w1 w2)
  case 0
  then show ?case by simp
next
  case (Suc n)
  define g1 where "g1 = generate_random_point_on_surface s w1"
  define g2 where "g2 = generate_random_point_on_surface s w2"
  have g: "fst g1 = fst g2" "rng (snd g1) = rng (snd g2)"
    unfolding g1_def g2_def by (rule generate_random_point_rel [OF Suc.prems(2)])+
  show ?case
  proof (cases "fst g1")
    case None
    with g(1) have None2: "fst g2 = None" by simp
    from Suc.IH [OF Suc.prems(1) g(2)] None None2 show ?thesis
      by (simp only: build_loop_Suc g1_def [symmetric] g2_def [symmetric] option.case)
  next
    case (Some p)
    with g(1) have Some2: "fst g2 = Some p" by simp
    define r1 where "r1 = random_uniform (- 0.05) 0.05 (snd g1)"
    define r2 where "r2 = random_uniform (- 0.05) 0.05 (snd g2)"
    define q1 where "q1 = random_uniform (- 0.05) 0.05 (snd r1)"
    define q2 where "q2 = random_uniform (- 0.05) 0.05 (snd r2)"
    have r: "fst r1 = fst r2" "rng (snd r1) = rng (snd r2)"
      unfolding r1_def r2_def by (rule random_uniform_rel [OF g(2)])+
    have q: "fst q1 = fst q2" "rng (snd q1) = rng (snd q2)"
      unfolding q1_def q2_def by (rule random_uniform_rel [OF r(2)])+
    have L: "list_all2 same_but_id
        (as1 @ [Agent_new (uuids w1 0) (Some p) (fst r1, fst q1, 0)])
        (as2 @ [Agent_new (uuids w2 0) (Some p) (fst r2, fst q2, 0)])"
      using Suc.prems(1) r(1) q(1)
      by (intro list_all2_appendI) (simp_all add: same_but_id_Agent_new)
    have W: "rng ((snd q1)\<lparr>uuids := (\<lambda>n. uuids w1 (Suc n))\<rparr>)
           = rng ((snd q2)\<lparr>uuids := (\<lambda>n. uuids w2 (Suc n))\<rparr>)"
      using q(2) by simp
    from Suc.IH [OF L W] Some Some2 show ?thesis
      by (simp only: build_loop_Suc g1_def [symmetric] g2_def [symmetric] option.case
          r1_def [symmetric] r2_def [symmetric] q1_def [symmetric] q2_def [symmetric])
  qed
qed

lemma build_agents_ids:
  assumes "inj (uuids w)"
  shows "fresh_ids (map agent_id (fst (build_agents N s w))) (snd (build_agents N s w))"
proof -
  from assms have e: "fresh_ids (map agent_id []) w" by (simp add: fresh_ids_def)
  show ?thesis
  proof (cases "\<exists>x. s = Some x \<and> IsSurface x")
    case True
    then have "build_agents N s w = build_loop (nat N) s [] w"
      by (auto simp: build_agents_def)
    with build_loop_ids [OF e, of "nat N" s] show ?thesis by simp
  next
    case False
    then have "build_agents N s w = ([], w)"
      by (auto simp: build_agents_def split: option.splits)
    with e show ?thesis by simp
  qed
qed

lemma build_agents_rel:
  assumes "rng w1 = rng w2"
  shows "list_all2 same_but_id (fst (build_agents N s w1)) (fst (build_agents N s w2)) \<and>
         rng (snd (build_agents N s w1)) = rng (snd (build_agents N s w2))"
proof (cases "\<exists>x. s = Some x \<and> IsSurface x")
  case True
  then have "build_agents N s w1 = build_loop (nat N) s [] w1"
    "build_agents N s w2 = build_loop (nat N) s [] w2"
    by (auto simp: build_agents_def)
  with build_loop_rel [OF _ assms, of "[]" "[]" "nat N" s] show ?thesis by simp
next
  case False
  then have "build_agents N s w1 = ([], w1)" "build_agents N s w2 = ([], w2)"
    by (auto simp: build_agents_def split: option.splits)
  with assms show ?thesis by simp
qed

lemma update_keeps_ids:
  assumes "update i store s P w = Inr (self', sp, w1)"
  shows "map agent_id (store[i := self']) = map agent_id store"
proof (cases "i < length store")
  case True
  with update_ids(1) [OF assms] show ?thesis by (simp add: map_update list_update_same_conv)
next
  case False
  then show ?thesis by (simp add: list_update_beyond)
qed

lemma step_loop_rel:
  assumes "list_all2 same_but_id st1 st2" "list_all2 same_but_id new1 new2" "rng w1 = rng w2"
    "distinct (map agent_id st1)" "distinct (map agent_id st2)" "\<forall>j \<in> set js. j < length st1"
  shows "rel_sum (=) (\<lambda>(s1', a1', n1', w1') (s2', a2', n2', w2').
            list_all2 same_but_id s1' s2' \<and> a1' = a2' \<and> list_all2 same_but_id n1' n2' \<and>
            rng w1' = rng w2')
          (step_loop s P js (st1, act, new1, w1)) (step_loop s P js (st2, act, new2, w2))"
  using assms
proof (induction js arbitrary: st1 st2 act new1 new2 w1 w2)
  case Nil
  then show ?case by simp
next
  case (Cons i js)
  note L = Cons.prems(1) and rng = Cons.prems(3)
  from L have len: "length st1 = length st2" by (rule list_all2_lengthD)
  from Cons.prems(6) have i: "i < length st1" and rest: "\<forall>j \<in> set js. j < length st1" by simp_all
  have ids: "\<forall>j < length st1. (agent_id (st1 ! j) = agent_id (st1 ! i) \<longleftrightarrow>
                                  agent_id (st2 ! j) = agent_id (st2 ! i))"
  proof (intro allI impI)
    fix j assume j: "j < length st1"
    have "agent_id (st1 ! j) = agent_id (st1 ! i) \<longleftrightarrow> j = i"
      using nth_eq_iff_index_eq [OF Cons.prems(4), of j i] i j by simp
    moreover have "agent_id (st2 ! j) = agent_id (st2 ! i) \<longleftrightarrow> j = i"
      using nth_eq_iff_index_eq [OF Cons.prems(5), of j i] i j len by simp
    ultimately show "agent_id (st1 ! j) = agent_id (st1 ! i) \<longleftrightarrow> agent_id (st2 ! j) = agent_id (st2 ! i)"
      by simp
  qed
  note U = update_rel [OF L i ids rng, of s P]
  show ?case
  proof (cases "update i st1 s P w1")
    case (Inl e)
    with U obtain e' where "update i st2 s P w2 = Inl e'"
      by (cases "update i st2 s P w2") auto
    with Inl show ?thesis by (simp add: error_eq)
  next
    case (Inr r1)
    obtain a' sp1 w1' where r1: "r1 = (a', sp1, w1')" by (cases r1)
    from U Inr r1 obtain b' sp2 w2' where
      u2: "update i st2 s P w2 = Inr (b', sp2, w2')"
      and R: "same_but_id a' b'" and Rsp: "rel_option same_but_id sp1 sp2"
      and rng': "rng w1' = rng w2'"
      by (cases "update i st2 s P w2") auto
    from Inr r1 have u1: "update i st1 s P w1 = Inr (a', sp1, w1')" by simp
    have L': "list_all2 same_but_id (st1[i := a']) (st2[i := b'])"
      using L R by (rule list_all2_update_cong)
    have N': "list_all2 same_but_id (case sp1 of None \<Rightarrow> new1 | Some c \<Rightarrow> new1 @ [c])
        (case sp2 of None \<Rightarrow> new2 | Some c \<Rightarrow> new2 @ [c])"
      using Rsp Cons.prems(2)
      by (cases sp1; cases sp2) (simp_all add: list_all2_appendI)
    have d1: "distinct (map agent_id (st1[i := a']))"
      using update_keeps_ids [OF u1] Cons.prems(4) by simp
    have d2: "distinct (map agent_id (st2[i := b']))"
      using update_keeps_ids [OF u2] Cons.prems(5) by simp
    have rest': "\<forall>j \<in> set js. j < length (st1[i := a'])" using rest by simp
    have al: "is_alive b' = is_alive a'" by (rule same_but_id_fields(4) [OF R])
    from Cons.IH [OF L' N' rng' d1 d2 rest'] u1 u2 al show ?thesis by simp
  qed
qed

lemma fresh_ids_sub:
  assumes "fresh_ids (xs @ ys) w" "distinct js" "\<forall>j \<in> set js. j < length xs"
  shows "fresh_ids (map (\<lambda>j. xs ! j) js @ ys) w"
proof -
  from assms(1) have d: "distinct xs" "distinct ys" "set xs \<inter> set ys = {}"
    and i: "inj (uuids w)" and r: "(set xs \<union> set ys) \<inter> range (uuids w) = {}"
    by (auto simp: fresh_ids_def)
  have sub: "set (map (\<lambda>j. xs ! j) js) \<subseteq> set xs" using assms(3) by auto
  have "inj_on (\<lambda>j. xs ! j) (set js)"
    using d(1) assms(3) by (auto simp: inj_on_def nth_eq_iff_index_eq)
  with assms(2) have "distinct (map (\<lambda>j. xs ! j) js)" by (simp add: distinct_map)
  moreover have "set (map (\<lambda>j. xs ! j) js) \<inter> set ys = {}" using sub d(3) by blast
  moreover have "(set (map (\<lambda>j. xs ! j) js) \<union> set ys) \<inter> range (uuids w) = {}"
    using sub r by blast
  ultimately show ?thesis using d(2) i by (simp add: fresh_ids_def Int_Un_distrib2)
qed

lemma RunScript_eq:
  "RunScript mt seed N reset s P cw =
     (case step_loop s P [0..<length (fst (run_start mt seed N reset s cw))]
             (fst (run_start mt seed N reset s cw), [], [], snd (run_start mt seed N reset s cw)) of
        Inl e \<Rightarrow> Inl e
      | Inr (store, active, new_agents, w3) \<Rightarrow> Inr (Some (map (\<lambda>i. store ! i) active @ new_agents), w3))"
  by (cases cw) (simp add: RunScript_def run_start_def Let_def case_prod_beta)

lemma seed_everything_uuids: "uuids (seed_everything mt seed w) = uuids w"
  by (simp add: seed_everything_def split: option.splits)

lemma seed_everything_rel:
  assumes "seed = None \<longrightarrow> rng w1 = rng w2"
  shows "rng (seed_everything mt seed w1) = rng (seed_everything mt seed w2)"
  using assms by (simp add: seed_everything_def split: option.splits)

lemma run_start_ids:
  assumes "inj (uuids w)" "\<forall>xs. c = Some xs \<longrightarrow> fresh_ids (map agent_id xs) w"
  shows "fresh_ids (map agent_id (fst (run_start mt seed N reset s (c, w))))
           (snd (run_start mt seed N reset s (c, w)))"
proof (cases "reset \<or> c = None")
  case True
  have "inj (uuids (seed_everything mt seed w))" using assms(1) by (simp add: seed_everything_uuids)
  from build_agents_ids [OF this, of N s] True show ?thesis by (simp add: run_start_def)
next
  case False
  then obtain xs where c: "c = Some xs" by auto
  with assms(2) have "fresh_ids (map agent_id xs) w" by simp
  with fresh_ids_cong [OF seed_everything_uuids, of "map agent_id xs" mt seed w]
  have "fresh_ids (map agent_id xs) (seed_everything mt seed w)" by simp
  with False c show ?thesis by (simp add: run_start_def)
qed

lemma run_start_rel:
  assumes "rel_option (list_all2 same_but_id) c1 c2" "seed = None \<longrightarrow> rng w1 = rng w2"
  shows "list_all2 same_but_id (fst (run_start mt seed N reset s (c1, w1)))
           (fst (run_start mt seed N reset s (c2, w2))) \<and>
         rng (snd (run_start mt seed N reset s (c1, w1)))
           = rng (snd (run_start mt seed N reset s (c2, w2)))"
proof -
  note sr = seed_everything_rel [OF assms(2), of mt]
  from assms(1) have none: "c1 = None \<longleftrightarrow> c2 = None" by (cases c1; cases c2) simp_all
  show ?thesis
  proof (cases "reset \<or> c1 = None")
    case True
    with none have "reset \<or> c2 = None" by simp
    with True build_agents_rel [OF sr, of N s] show ?thesis by (simp add: run_start_def)
  next
    case False
    with none have F2: "\<not> (reset \<or> c2 = None)" by simp
    from False F2 obtain xs ys where "c1 = Some xs" "c2 = Some ys" by auto
    with assms(1) False F2 sr show ?thesis by (simp add: run_start_def)
  qed
qed

lemma RunScript_ids:
  assumes run: "RunScript mt seed N reset s P (c, w) = Inr (c', w')"
    and inj: "inj (uuids w)" and inv: "\<forall>xs. c = Some xs \<longrightarrow> fresh_ids (map agent_id xs) w"
  shows "inj (uuids w') \<and> (\<forall>xs. c' = Some xs \<longrightarrow> fresh_ids (map agent_id xs) w')"
proof -
  define agents where "agents = fst (run_start mt seed N reset s (c, w))"
  define w2 where "w2 = snd (run_start mt seed N reset s (c, w))"
  have f0: "fresh_ids (map agent_id (agents @ [])) w2"
    using run_start_ids [OF inj inv, of mt seed N reset s] by (simp add: agents_def w2_def)
  from run obtain store act new where
    loop: "step_loop s P [0..<length agents] (agents, [], [], w2) = Inr (store, act, new, w')"
    and c': "c' = Some (map (\<lambda>i. store ! i) act @ new)"
    unfolding RunScript_eq agents_def [symmetric] w2_def [symmetric]
    by (auto split: sum.splits)
  from step_loop_ids [OF loop f0] have "fresh_ids (map agent_id (store @ new)) w'" by blast
  then have f1: "fresh_ids (map agent_id store @ map agent_id new) w'" by simp
  from step_loop_active [OF loop] have lt: "\<forall>j \<in> set act. j < length (map agent_id store)" by simp
  from step_loop_active_distinct [OF loop] have d: "distinct act" by simp
  from fresh_ids_sub [OF f1 d lt]
  have "fresh_ids (map (\<lambda>j. map agent_id store ! j) act @ map agent_id new) w'" .
  moreover have "map (\<lambda>j. map agent_id store ! j) act = map agent_id (map (\<lambda>i. store ! i) act)"
    using lt by simp
  ultimately have fin: "fresh_ids (map agent_id (map (\<lambda>i. store ! i) act @ new)) w'" by simp
  then have "inj (uuids w')" unfolding fresh_ids_def by blast
  with fin c' show ?thesis by blast
qed

lemma RunScript_rel:
  assumes rel: "rel_option (list_all2 same_but_id) c1 c2"
    and rng: "seed = None \<longrightarrow> rng w1 = rng w2"
    and inv1: "inj (uuids w1)" "\<forall>xs. c1 = Some xs \<longrightarrow> fresh_ids (map agent_id xs) w1"
    and inv2: "inj (uuids w2)" "\<forall>xs. c2 = Some xs \<longrightarrow> fresh_ids (map agent_id xs) w2"
  shows "rel_sum (=) (\<lambda>(c1', w1') (c2', w2').
            rel_option (list_all2 same_but_id) c1' c2' \<and> rng w1' = rng w2')
          (RunScript mt seed N reset s P (c1, w1)) (RunScript mt seed N reset s P (c2, w2))"
proof -
  define as1 where "as1 = fst (run_start mt seed N reset s (c1, w1))"
  define v1 where "v1 = snd (run_start mt seed N reset s (c1, w1))"
  define as2 where "as2 = fst (run_start mt seed N reset s (c2, w2))"
  define v2 where "v2 = snd (run_start mt seed N reset s (c2, w2))"
  from run_start_rel [OF rel rng, of mt N reset s]
  have L: "list_all2 same_but_id as1 as2" and R: "rng v1 = rng v2"
    by (simp_all add: as1_def as2_def v1_def v2_def)
  from L have len: "length as1 = length as2" by (rule list_all2_lengthD)
  from run_start_ids [OF inv1, of mt seed N reset s] have d1: "distinct (map agent_id as1)"
    by (simp add: fresh_ids_def as1_def)
  from run_start_ids [OF inv2, of mt seed N reset s] have d2: "distinct (map agent_id as2)"
    by (simp add: fresh_ids_def as2_def)
  have b: "\<forall>j \<in> set [0..<length as1]. j < length as1" by simp
  note S = step_loop_rel [OF L _ R d1 d2 b, of "[]" "[]" s P "[]"]
  show ?thesis
  proof (cases "step_loop s P [0..<length as1] (as1, [], [], v1)")
    case (Inl e)
    with S obtain e' where "step_loop s P [0..<length as1] (as2, [], [], v2) = Inl e'"
      by (cases "step_loop s P [0..<length as1] (as2, [], [], v2)") auto
    with Inl len show ?thesis
      unfolding RunScript_eq as1_def [symmetric] v1_def [symmetric] as2_def [symmetric] v2_def [symmetric]
      by (simp add: error_eq)
  next
    case (Inr r)
    obtain st1 act1 new1 w1' where r: "r = (st1, act1, new1, w1')" by (cases r)
    from S Inr r obtain st2 new2 w2' where
      l2: "step_loop s P [0..<length as1] (as2, [], [], v2) = Inr (st2, act1, new2, w2')"
      and L': "list_all2 same_but_id st1 st2" and N': "list_all2 same_but_id new1 new2"
      and R': "rng w1' = rng w2'"
      by (cases "step_loop s P [0..<length as1] (as2, [], [], v2)") auto
    from Inr r have l1: "step_loop s P [0..<length as1] (as1, [], [], v1) = Inr (st1, act1, new1, w1')"
      by simp
    from step_loop_active [OF l1] have lt: "\<forall>j \<in> set act1. j < length st1" by simp
    have "list_all2 same_but_id (map (\<lambda>i. st1 ! i) act1) (map (\<lambda>i. st2 ! i) act1)"
      unfolding list_all2_map1 list_all2_map2
      by (rule list_all2_same [THEN iffD2]) (use lt L' in \<open>auto dest: list_all2_nthD\<close>)
    from this N' have "list_all2 same_but_id (map (\<lambda>i. st1 ! i) act1 @ new1) (map (\<lambda>i. st2 ! i) act1 @ new2)"
      by (rule list_all2_appendI)
    with l1 l2 len R' show ?thesis
      unfolding RunScript_eq as1_def [symmetric] v1_def [symmetric] as2_def [symmetric] v2_def [symmetric]
      by simp
  qed
qed

lemma run_steps_rel:
  assumes "rel_option (list_all2 same_but_id) c1 c2" "seed = None \<longrightarrow> rng w1 = rng w2"
    "inj (uuids w1)" "\<forall>xs. c1 = Some xs \<longrightarrow> fresh_ids (map agent_id xs) w1"
    "inj (uuids w2)" "\<forall>xs. c2 = Some xs \<longrightarrow> fresh_ids (map agent_id xs) w2"
  shows "rel_sum (=) (\<lambda>(c1', w1') (c2', w2'). rel_option (list_all2 same_but_id) c1' c2')
          (run_steps mt seed N s P resets (c1, w1)) (run_steps mt seed N s P resets (c2, w2))"
  using assms
proof (induction resets arbitrary: c1 c2 w1 w2)
  case Nil
  then show ?case by simp
next
  case (Cons reset resets)
  note R = RunScript_rel [OF Cons.prems, of mt N reset s P]
  show ?case
  proof (cases "RunScript mt seed N reset s P (c1, w1)")
    case (Inl e)
    with R obtain e' where "RunScript mt seed N reset s P (c2, w2) = Inl e'"
      by (cases "RunScript mt seed N reset s P (c2, w2)") auto
    with Inl show ?thesis by (simp add: error_eq)
  next
    case (Inr r)
    obtain c1' w1' where r: "r = (c1', w1')" by (cases r)
    from R Inr r obtain c2' w2' where
      r2: "RunScript mt seed N reset s P (c2, w2) = Inr (c2', w2')"
      and rel: "rel_option (list_all2 same_but_id) c1' c2'" and rng: "rng w1' = rng w2'"
      by (cases "RunScript mt seed N reset s P (c2, w2)") auto
    from Inr r have r1: "RunScript mt seed N reset s P (c1, w1) = Inr (c1', w1')" by simp
    from RunScript_ids [OF r1 Cons.prems(3,4)]
    have i1: "inj (uuids w1')" "\<forall>xs. c1' = Some xs \<longrightarrow> fresh_ids (map agent_id xs) w1'" by blast+
    from RunScript_ids [OF r2 Cons.prems(5,6)]
    have i2: "inj (uuids w2')" "\<forall>xs. c2' = Some xs \<longrightarrow> fresh_ids (map agent_id xs) w2'" by blast+
    from rng have rng': "seed = None \<longrightarrow> rng w1' = rng w2'" by simp
    from Cons.IH [OF rel rng' i1 i2] r1 r2 show ?thesis by simp
  qed
qed

lemma same_but_id_lists:
  assumes "list_all2 same_but_id xs ys"
  shows "map position xs = map position ys" "map velocity xs = map velocity ys"
    "length xs = length ys"
proof -
  from assms show len: "length xs = length ys" by (rule list_all2_lengthD)
  have f: "position (xs ! i) = position (ys ! i)" "velocity (xs ! i) = velocity (ys ! i)"
    if "i < length xs" for i
    using same_but_id_fields(1,2) [OF list_all2_nthD [OF assms that]] by simp_all
  show "map position xs = map position ys"
    using len f(1) by (intro nth_equalityI) simp_all
  show "map velocity xs = map velocity ys"
    using len f(2) by (intro nth_equalityI) simp_all
qed

lemma example_run:
  "run_steps example_mt (Some 42) 1 (Some example_surface) default_params [False, False]
          (None, \<lparr>rng = r, uuids = (\<lambda>n. k + n)\<rparr>)
    = Inr (Some [example_final\<lparr>agent_id := k\<rparr>],
           \<lparr>rng = (\<lambda>n. if n = 3 then 9 / 10 else 1 / 2), uuids = (\<lambda>n. Suc (k + n))\<rparr>)"
  by (simp add: RunScript_def seed_everything_def build_agents_def generate_random_point_on_surface_def
      update_eval example_mt_def upt_rec example_final_def)

text \<open>
  Claim C3. Two runs with the same generator, seed, configuration, surface and step count
  (the same sequence of \<open>RunScript\<close> calls on a fresh component) either both end in an
  exception or both return, with identical agent positions, identical velocities and the
  same population size. The runs may differ in what the seed does not control: the state of
  the random generator before the first call (every call seeds it again) and the
  identifiers \<open>uuid4\<close> hands out, which are only assumed unique within a run.
\<close>

theorem C3_determinism:
  assumes "inj u1" "inj u2"
  shows "(\<exists>e. run_steps mt (Some seed) N s P resets (None, \<lparr>rng = r1, uuids = u1\<rparr>) = Inl e \<and>
              run_steps mt (Some seed) N s P resets (None, \<lparr>rng = r2, uuids = u2\<rparr>) = Inl e) \<or>
         (\<exists>c1 w1 c2 w2.
              run_steps mt (Some seed) N s P resets (None, \<lparr>rng = r1, uuids = u1\<rparr>) = Inr (c1, w1) \<and>
              run_steps mt (Some seed) N s P resets (None, \<lparr>rng = r2, uuids = u2\<rparr>) = Inr (c2, w2) \<and>
              map position (population c1) = map position (population c2) \<and>
              map velocity (population c1) = map velocity (population c2) \<and>
              length (population c1) = length (population c2))"
proof -
  define x1 where "x1 = run_steps mt (Some seed) N s P resets (None, \<lparr>rng = r1, uuids = u1\<rparr>)"
  define x2 where "x2 = run_steps mt (Some seed) N s P resets (None, \<lparr>rng = r2, uuids = u2\<rparr>)"
  have "rel_sum (=) (\<lambda>(c1', w1') (c2', w2'). rel_option (list_all2 same_but_id) c1' c2') x1 x2"
    unfolding x1_def x2_def
    by (rule run_steps_rel) (use assms in simp_all)
  then have "(\<exists>e. x1 = Inl e \<and> x2 = Inl e) \<or>
         (\<exists>c1 w1 c2 w2. x1 = Inr (c1, w1) \<and> x2 = Inr (c2, w2) \<and>
              map position (population c1) = map position (population c2) \<and>
              map velocity (population c1) = map velocity (population c2) \<and>
              length (population c1) = length (population c2))"
  proof (cases x1)
    case (Inl e1)
    assume "rel_sum (=) (\<lambda>(c1', w1') (c2', w2'). rel_option (list_all2 same_but_id) c1' c2') x1 x2"
    with Inl show ?thesis by (cases x2) simp_all
  next
    case (Inr p1)
    assume rs: "rel_sum (=) (\<lambda>(c1', w1') (c2', w2'). rel_option (list_all2 same_but_id) c1' c2') x1 x2"
    obtain c1 w1 where p1: "p1 = (c1, w1)" by (cases p1)
    from rs Inr p1 obtain c2 w2 where x2: "x2 = Inr (c2, w2)"
      and rel: "rel_option (list_all2 same_but_id) c1 c2"
      by (cases x2) auto
    have "list_all2 same_but_id (population c1) (population c2)"
      using rel by (cases c1; cases c2) (simp_all add: population_def)
    from same_but_id_lists [OF this] Inr p1 x2 show ?thesis by simp
  qed
  then show ?thesis unfolding x1_def x2_def .
qed

theorem C3_determinism_witness:
  "inj (\<lambda>n :: nat. 0 + n) \<and> inj (\<lambda>n :: nat. 100 + n) \<and>
   run_steps example_mt (Some 42) 1 (Some example_surface) default_params [False, False]
     (None, \<lparr>rng = (\<lambda>n. 0), uuids = (\<lambda>n. 0 + n)\<rparr>)
     = Inr (Some [example_final\<lparr>agent_id := 0\<rparr>],
           \<lparr>rng = (\<lambda>n. if n = 3 then 9 / 10 else 1 / 2), uuids = (\<lambda>n. Suc (0 + n))\<rparr>) \<and>
   run_steps example_mt (Some 42) 1 (Some example_surface) default_params [False, False]
     (None, \<lparr>rng = (\<lambda>n. 1 / 3), uuids = (\<lambda>n. 100 + n)\<rparr>)
     = Inr (Some [example_final\<lparr>agent_id := 100\<rparr>],
           \<lparr>rng = (\<lambda>n. if n = 3 then 9 / 10 else 1 / 2), uuids = (\<lambda>n. Suc (100 + n))\<rparr>) \<and>
   map position (population (Some [example_final\<lparr>agent_id := 0\<rparr>]))
     = map position (population (Some [example_final\<lparr>agent_id := 100\<rparr>])) \<and>
   map velocity (population (Some [example_final\<lparr>agent_id := 0\<rparr>]))
     = map velocity (population (Some [example_final\<lparr>agent_id := 100\<rparr>])) \<and>
   length (population (Some [example_final\<lparr>agent_id := 0\<rparr>]))
     = length (population (Some [example_final\<lparr>agent_id := 100\<rparr>]))"
proof -
  have i1: "inj (\<lambda>n :: nat. 0 + n)" and i2: "inj (\<lambda>n :: nat. 100 + n)"
    by (simp_all add: inj_on_def)
  note e1 = example_run [of "\<lambda>n. 0" 0] and e2 = example_run [of "\<lambda>n. 1 / 3" 100]
  from C3_determinism [OF i1 i2, of example_mt 42 1 "Some example_surface" default_params
      "[False, False]" "\<lambda>n. 0" "\<lambda>n. 1 / 3"]
  have "map position (population (Some [example_final\<lparr>agent_id := 0\<rparr>]))
     = map position (population (Some [example_final\<lparr>agent_id := 100\<rparr>])) \<and>
   map velocity (population (Some [example_final\<lparr>agent_id := 0\<rparr>]))
     = map velocity (population (Some [example_final\<lparr>agent_id := 100\<rparr>])) \<and>
   length (population (Some [example_final\<lparr>agent_id := 0\<rparr>]))
     = length (population (Some [example_final\<lparr>agent_id := 100\<rparr>]))"
    unfolding e1 e2 by simp
  with i1 i2 e1 e2 show ?thesis by blast
qed

end
